theory Spec2Isabelle
  imports Complex_Main
begin

section \<open>The landing page script \<^verbatim>\<open>src/js/main.js\<close>\<close>

text \<open>
  The script is UI glue over a browser. The model keeps the script's own code as it is
  written and makes the host explicit as a record \<open>world\<close>:
  \<^item> the document, as the function \<open>querySelector\<close> from a selector to the address of the
    first matching element (\<open>None\<close> is JavaScript's \<open>null\<close>), and a heap of elements;
  \<^item> the browser's map of active timers, shared by \<open>setInterval\<close> and \<open>setTimeout\<close>, with
    a counter from which fresh positive handles are drawn;
  \<^item> the console, as the list of the entries written so far;
  \<^item> the three closure variables of the modules (\<open>isMenuOpen\<close>, \<open>currentIndex\<close>,
    \<open>intervalId\<close>).
  A call of a function of the script takes a world and returns an \<open>outcome\<close>: the world
  it leaves, and the exception when one is thrown. The one exception JavaScript itself
  raises in this code is the \<open>TypeError\<close> of a property access on \<open>null\<close>.
  \<open>Math.random()\<close> is an argument \<open>rnd\<close> of the functions that call it: in the browser a
  double-precision number with \<open>0 \<le> rnd < 1\<close>. The product in \<open>getRandomInt\<close> is the
  IEEE 754 product: the exact product rounded to the nearest double, ties to even. Time is
  abstract: an active timer fires when the event \<open>Fire\<close> names its handle.
\<close>

subsection \<open>Configuration\<close>

record config =
  WORD_ROTATION_INTERVAL :: nat
  WORD_FADE_DURATION :: nat
  HERO_WORDS :: "string list"
  HERO_IMAGES :: "string list"

definition CONFIG :: config where
  "CONFIG =
     \<lparr>WORD_ROTATION_INTERVAL = 3000,
      WORD_FADE_DURATION = 300,
      HERO_WORDS =
        [''WhatsApp Bot'', ''Telegram Bot'', ''Discord Bot'', ''Game Server'', ''AI Agent'',
         ''Cron Job'', ''Database'', ''Web App/API'', ''Webhook Receiver'',
         ''Automation Script''],
      HERO_IMAGES =
        [''images/hero-1.png'', ''images/hero-2.png'', ''images/hero-3.png'',
         ''images/hero-4.png'']\<rparr>"

subsection \<open>JavaScript values\<close>

text \<open>
  A JavaScript number that is an integer, an infinity or \<open>NaN\<close>: the values of
  \<open>Math.floor\<close>, and so of the cursor \<open>currentIndex\<close>.
\<close>

datatype jsnum = Finite int | PosInfinity | NegInfinity | NaN

fun js_add :: "jsnum \<Rightarrow> jsnum \<Rightarrow> jsnum" where
  "js_add (Finite a) (Finite b) = Finite (a + b)"
| "js_add NaN y = NaN"
| "js_add x NaN = NaN"
| "js_add PosInfinity NegInfinity = NaN"
| "js_add NegInfinity PosInfinity = NaN"
| "js_add PosInfinity y = PosInfinity"
| "js_add x PosInfinity = PosInfinity"
| "js_add NegInfinity y = NegInfinity"
| "js_add x NegInfinity = NegInfinity"

text \<open>
  The operator \<open>%\<close>: the remainder of the truncating division; \<open>NaN\<close> for a zero divisor,
  an infinite dividend or a \<open>NaN\<close>; the dividend itself for an infinite divisor.
\<close>

fun js_rem :: "jsnum \<Rightarrow> jsnum \<Rightarrow> jsnum" where
  "js_rem (Finite a) (Finite b) = (if b = 0 then NaN else Finite (sgn a * (\<bar>a\<bar> mod \<bar>b\<bar>)))"
| "js_rem (Finite a) PosInfinity = Finite a"
| "js_rem (Finite a) NegInfinity = Finite a"
| "js_rem _ _ = NaN"

text \<open>\<open>array[i]\<close>: \<open>None\<close> is \<open>undefined\<close>, the value of a read outside the array.\<close>

fun array_get :: "'a list \<Rightarrow> jsnum \<Rightarrow> 'a option" where
  "array_get xs (Finite i) = (if 0 \<le> i \<and> i < int (length xs) then Some (xs ! nat i) else None)"
| "array_get xs _ = None"

subsection \<open>Double-precision arithmetic\<close>

text \<open>
  A JavaScript number in general: \<open>Num x\<close> for a finite double \<open>x\<close> (the sign of zero is
  left out), the two infinities and \<open>NaN\<close>. The finite doubles are the reals \<open>m * 2\<^sup>p\<close> with
  an integer significand \<open>\<bar>m\<bar> < 2\<^sup>5\<^sup>3\<close> and an exponent \<open>- 1074 \<le> p \<le> 971\<close>.
\<close>

datatype number = Num real | Infinity | MinusInfinity | NotANumber

text \<open>The power of two with an integer exponent.\<close>

definition pow2 :: "int \<Rightarrow> real" where
  "pow2 q = (if 0 \<le> q then 2 ^ nat q else 1 / 2 ^ nat (- q))"

text \<open>
  The position of the leading bit: of a positive integer, and of a positive real \<open>x\<close>,
  where it is the \<open>e\<close> with \<open>2\<^sup>e \<le> x < 2\<^sup>e\<^sup>+\<^sup>1\<close>.
\<close>

function ilog2 :: "int \<Rightarrow> int" where
  "ilog2 n = (if n < 2 then 0 else ilog2 (n div 2) + 1)"
  by pat_completeness auto

termination
  by (relation "measure nat") auto

declare ilog2.simps [simp del]

definition exponent :: "real \<Rightarrow> int" where
  "exponent x =
     (if 1 \<le> x then ilog2 \<lfloor>x\<rfloor> else - ilog2 (\<lceil>1 / x\<rceil> - 1) - 1)"

text \<open>The nearest integer, the even one of two that are equally near.\<close>

definition round_even :: "real \<Rightarrow> int" where
  "round_even y =
     (let f = \<lfloor>y\<rfloor>; d = y - of_int f in
      if d < 1 / 2 then f else if 1 / 2 < d then f + 1 else if even f then f else f + 1)"

text \<open>
  The exponent of the unit in the last place of a positive real: 52 binary places below
  its leading bit, and \<open>- 1074\<close> in the subnormal range.
\<close>

definition quantum :: "real \<Rightarrow> int" where
  "quantum x = max (exponent x - 52) (- 1074)"

text \<open>
  The finite doubles: zero, and the reals below \<open>2\<^sup>1\<^sup>0\<^sup>2\<^sup>4\<close> in magnitude that are a whole
  number of their units in the last place.
\<close>

definition is_double :: "real \<Rightarrow> bool" where
  "is_double x \<longleftrightarrow>
     x = 0 \<or>
     (let q = quantum \<bar>x\<bar>; y = \<bar>x\<bar> / pow2 q in q \<le> 971 \<and> of_int \<lfloor>y\<rfloor> = y)"

text \<open>Rounding to nearest, ties to even, before the check for overflow.\<close>

definition round_double :: "real \<Rightarrow> real" where
  "round_double x =
     (if x = 0 then 0
      else sgn x * (of_int (round_even (\<bar>x\<bar> / pow2 (quantum \<bar>x\<bar>))) * pow2 (quantum \<bar>x\<bar>)))"

text \<open>The number an exact real result is delivered as: rounded, an infinity on overflow.\<close>

definition number_of_real :: "real \<Rightarrow> number" where
  "number_of_real x =
     (let y = round_double x in
      if pow2 1024 \<le> y then Infinity
      else if y \<le> - pow2 1024 then MinusInfinity
      else Num y)"

text \<open>The operator \<open>*\<close>.\<close>

fun js_mul :: "number \<Rightarrow> number \<Rightarrow> number" where
  "js_mul (Num a) (Num b) = number_of_real (a * b)"
| "js_mul NotANumber y = NotANumber"
| "js_mul x NotANumber = NotANumber"
| "js_mul (Num a) Infinity =
     (if a = 0 then NotANumber else if 0 < a then Infinity else MinusInfinity)"
| "js_mul (Num a) MinusInfinity =
     (if a = 0 then NotANumber else if 0 < a then MinusInfinity else Infinity)"
| "js_mul Infinity (Num b) =
     (if b = 0 then NotANumber else if 0 < b then Infinity else MinusInfinity)"
| "js_mul MinusInfinity (Num b) =
     (if b = 0 then NotANumber else if 0 < b then MinusInfinity else Infinity)"
| "js_mul Infinity Infinity = Infinity"
| "js_mul MinusInfinity MinusInfinity = Infinity"
| "js_mul Infinity MinusInfinity = MinusInfinity"
| "js_mul MinusInfinity Infinity = MinusInfinity"

fun Math_floor :: "number \<Rightarrow> jsnum" where
  "Math_floor (Num x) = Finite \<lfloor>x\<rfloor>"
| "Math_floor Infinity = PosInfinity"
| "Math_floor MinusInfinity = NegInfinity"
| "Math_floor NotANumber = NaN"

text \<open>An integer in the half-open range from 0 to \<open>max\<close>.\<close>

fun integer_in_range :: "jsnum \<Rightarrow> number \<Rightarrow> bool" where
  "integer_in_range (Finite i) (Num maxv) = (0 \<le> i \<and> real_of_int i < maxv)"
| "integer_in_range (Finite i) Infinity = (0 \<le> i)"
| "integer_in_range _ _ = False"

subsection \<open>Strings\<close>

text \<open>The decimal digits of a natural number, as a template literal prints them.\<close>

definition digit :: "nat \<Rightarrow> char" where
  "digit d = ''0123456789'' ! d"

function string_of_nat :: "nat \<Rightarrow> string" where
  "string_of_nat n =
     (if n < 10 then [digit n] else string_of_nat (n div 10) @ [digit (n mod 10)])"
  by pat_completeness auto
termination
  by (relation "measure id") auto

declare string_of_nat.simps [simp del]

definition string_of_bool :: "bool \<Rightarrow> string" where
  "string_of_bool b = (if b then ''true'' else ''false'')"

subsection \<open>Utility functions\<close>

text \<open>\<open>const getRandomInt = (max) => Math.floor(Math.random() * max)\<close>\<close>

definition getRandomInt :: "real \<Rightarrow> number \<Rightarrow> jsnum" where
  "getRandomInt rnd maxv = Math_floor (js_mul (Num rnd) maxv)"

text \<open>\<open>const getRandomItem = (array) => array[getRandomInt(array.length)]\<close>\<close>

definition getRandomItem :: "real \<Rightarrow> 'a list \<Rightarrow> 'a option" where
  "getRandomItem rnd array = array_get array (getRandomInt rnd (Num (real (length array))))"

subsection \<open>The host: elements, timers, console\<close>

type_synonym addr = nat

text \<open>The two functions the script registers as click listeners.\<close>

datatype listener = ToggleMenuListener | LinkClickListener

record element =
  classList :: "string set"
  attributes :: "string \<Rightarrow> string option"
  textContent :: string
  opacity :: string
  transition :: string
  src :: string
  listeners :: "(string \<times> listener) list"

text \<open>
  The two callbacks the script hands to the timer functions, each with the values its
  closure captured: \<open>Interval el\<close> is \<open>() => { rotateNext(el) }\<close>, and \<open>Timeout el newWord\<close>
  is \<open>() => { el.textContent = newWord; el.style.opacity = "1" }\<close>.
\<close>

datatype timer = Interval "addr option" | Timeout "addr option" "string option"

datatype exn = TypeError string | Thrown string

datatype entry = Warn string | ErrorLog string exn

record world =
  querySelector :: "string \<Rightarrow> addr option"
  anchors :: "addr \<Rightarrow> addr list"
  heap :: "addr \<Rightarrow> element"
  isMenuOpen :: bool
  currentIndex :: jsnum
  intervalId :: "nat option"
  timers :: "nat \<Rightarrow> timer option"
  timerCount :: nat
  images :: "string list"
  console :: "entry list"

datatype outcome = Normal world | Throw exn world

fun world_of :: "outcome \<Rightarrow> world" where
  "world_of (Normal w) = w"
| "world_of (Throw e w) = w"

fun thrown :: "outcome \<Rightarrow> exn option" where
  "thrown (Normal w) = None"
| "thrown (Throw e w) = Some e"

text \<open>A block of statements: the first exception ends it.\<close>

fun run_stmts :: "(world \<Rightarrow> outcome) list \<Rightarrow> world \<Rightarrow> outcome" where
  "run_stmts [] w = Normal w"
| "run_stmts (s # ss) w =
     (case s w of Normal w' \<Rightarrow> run_stmts ss w' | Throw e w' \<Rightarrow> Throw e w')"

definition forEach :: "'a list \<Rightarrow> ('a \<Rightarrow> world \<Rightarrow> outcome) \<Rightarrow> world \<Rightarrow> outcome" where
  "forEach xs f = run_stmts (map f xs)"

text \<open>\<open>try { body } catch (error) { handler(error) }\<close>\<close>

definition try_catch ::
  "(world \<Rightarrow> outcome) \<Rightarrow> (exn \<Rightarrow> world \<Rightarrow> outcome) \<Rightarrow> world \<Rightarrow> outcome" where
  "try_catch body handler w =
     (case body w of Normal w' \<Rightarrow> Normal w' | Throw e w' \<Rightarrow> handler e w')"

text \<open>
  A write to a property of the object \<open>p\<close> refers to (\<open>p.x = v\<close>, \<open>p.classList.toggle(..)\<close>,
  \<open>p.setAttribute(..)\<close>): a \<open>TypeError\<close> when \<open>p\<close> is \<open>null\<close>. The text of the error is the
  engine's own; the model keeps one text for it.
\<close>

definition assign :: "addr option \<Rightarrow> (element \<Rightarrow> element) \<Rightarrow> world \<Rightarrow> outcome" where
  "assign p f w =
     (case p of
        None \<Rightarrow> Throw (TypeError ''Cannot set properties of null'') w
      | Some a \<Rightarrow> Normal (w\<lparr>heap := (heap w)(a := f (heap w a))\<rparr>))"

text \<open>\<open>classList.toggle(token, force)\<close>: the token is there afterwards exactly when \<open>force\<close>.\<close>

definition classList_toggle :: "string \<Rightarrow> bool \<Rightarrow> element \<Rightarrow> element" where
  "classList_toggle token force e =
     e\<lparr>classList := (if force then insert token (classList e) else classList e - {token})\<rparr>"

definition setAttribute :: "string \<Rightarrow> string \<Rightarrow> element \<Rightarrow> element" where
  "setAttribute name v e = e\<lparr>attributes := (attributes e)(name \<mapsto> v)\<rparr>"

text \<open>The setter of \<open>textContent\<close> (a nullable string: \<open>undefined\<close> empties the element).\<close>

definition set_textContent :: "string option \<Rightarrow> element \<Rightarrow> element" where
  "set_textContent v e = e\<lparr>textContent := (case v of None \<Rightarrow> [] | Some s \<Rightarrow> s)\<rparr>"

text \<open>The setter of \<open>src\<close> (a string: \<open>undefined\<close> is converted to its name).\<close>

definition set_src :: "string option \<Rightarrow> element \<Rightarrow> element" where
  "set_src v e = e\<lparr>src := (case v of None \<Rightarrow> ''undefined'' | Some s \<Rightarrow> s)\<rparr>"

text \<open>
  \<open>addEventListener\<close>: a listener already registered for the type is not added again.
  \<open>toggleMenu\<close> is one function; the arrow function of \<open>closeMenuOnLinkClick\<close> is a new
  object at every evaluation, so it is never one already registered.
\<close>

definition addEventListener :: "string \<Rightarrow> listener \<Rightarrow> element \<Rightarrow> element" where
  "addEventListener ty l e =
     (if l = ToggleMenuListener \<and> (ty, l) \<in> set (listeners e) then e
      else e\<lparr>listeners := listeners e @ [(ty, l)]\<rparr>)"

text \<open>
  \<open>setInterval\<close> and \<open>setTimeout\<close>: a fresh handle, greater than zero, for the callback in
  the map of active timers.
\<close>

definition set_timer :: "timer \<Rightarrow> world \<Rightarrow> nat \<times> world" where
  "set_timer t w =
     (let h = Suc (timerCount w) in (h, w\<lparr>timers := (timers w)(h \<mapsto> t), timerCount := h\<rparr>))"

definition setInterval :: "addr option \<Rightarrow> world \<Rightarrow> nat \<times> world" where
  "setInterval el w = set_timer (Interval el) w"

definition setTimeout :: "addr option \<Rightarrow> string option \<Rightarrow> world \<Rightarrow> nat \<times> world" where
  "setTimeout el newWord w = set_timer (Timeout el newWord) w"

text \<open>\<open>clearInterval(h)\<close> removes the handle from the map of active timers.\<close>

definition clearInterval :: "nat \<Rightarrow> world \<Rightarrow> world" where
  "clearInterval h w = w\<lparr>timers := (timers w)(h := None)\<rparr>"

definition console_warn :: "string \<Rightarrow> world \<Rightarrow> world" where
  "console_warn msg w = w\<lparr>console := console w @ [Warn msg]\<rparr>"

definition console_error :: "string \<Rightarrow> exn \<Rightarrow> world \<Rightarrow> outcome" where
  "console_error msg e w = Normal (w\<lparr>console := console w @ [ErrorLog msg e]\<rparr>)"

text \<open>
  \<^verbatim>\<open>const $ = (selector) => {
    const element = document.querySelector(selector);
    if (!element) { console.warn(`Element not found: ${selector}`); }
    return element; };\<close>
\<close>

definition dollar :: "string \<Rightarrow> world \<Rightarrow> addr option \<times> world" where
  "dollar selector w =
     (let element = querySelector w selector in
      if element = None then (element, console_warn (''Element not found: '' @ selector) w)
      else (element, w))"

text \<open>\<open>$$("a", context)\<close>: the anchors below \<open>context\<close>; \<open>None\<close> when \<open>context\<close> is \<open>null\<close>.\<close>

definition dollar_dollar_a :: "addr option \<Rightarrow> world \<Rightarrow> addr list option" where
  "dollar_dollar_a context w = (case context of None \<Rightarrow> None | Some c \<Rightarrow> Some (anchors w c))"

subsection \<open>Navigation\<close>

definition toggleMenu :: "world \<Rightarrow> outcome" where
  "toggleMenu w =
     (case dollar ''#sideMenu'' w of (sideMenu, w1) \<Rightarrow>
      case dollar ''#navCta'' w1 of (navCta, w2) \<Rightarrow>
        if sideMenu = None \<or> navCta = None then Normal w2
        else run_stmts
          [\<lambda>w. Normal (w\<lparr>isMenuOpen := \<not> isMenuOpen w\<rparr>),
           \<lambda>w. assign sideMenu (classList_toggle ''active'' (isMenuOpen w)) w,
           \<lambda>w. assign navCta (classList_toggle ''active'' (isMenuOpen w)) w,
           \<lambda>w. assign navCta (setAttribute ''aria-expanded'' (string_of_bool (isMenuOpen w))) w]
          w2)"

definition closeMenuOnLinkClick :: "world \<Rightarrow> outcome" where
  "closeMenuOnLinkClick w =
     (case dollar ''#sideMenu'' w of (sideMenu, w1) \<Rightarrow>
        if sideMenu = None then Normal w1
        else (case dollar_dollar_a sideMenu w1 of
                None \<Rightarrow> Throw (TypeError ''Cannot read properties of null'') w1
              | Some links \<Rightarrow>
                  forEach links
                    (\<lambda>link. assign (Some link) (addEventListener ''click'' LinkClickListener)) w1))"

definition Navigation_init :: "world \<Rightarrow> outcome" where
  "Navigation_init w =
     (case dollar ''#navCta'' w of (navCta, w1) \<Rightarrow>
        if navCta = None then Normal w1
        else run_stmts
          [assign navCta (addEventListener ''click'' ToggleMenuListener),
           closeMenuOnLinkClick]
          w1)"

text \<open>The listeners, as the browser calls them on a click.\<close>

fun call_listener :: "listener \<Rightarrow> world \<Rightarrow> outcome" where
  "call_listener ToggleMenuListener w = toggleMenu w"
| "call_listener LinkClickListener w = (if isMenuOpen w then toggleMenu w else Normal w)"

subsection \<open>Word rotation\<close>

definition updateWord :: "config \<Rightarrow> addr option \<Rightarrow> string option \<Rightarrow> world \<Rightarrow> outcome" where
  "updateWord cfg element newWord w =
     run_stmts
       [assign element (\<lambda>e. e\<lparr>opacity := ''0''\<rparr>),
        \<lambda>w. Normal (snd (setTimeout element newWord w))]
       w"

definition rotateNext :: "config \<Rightarrow> addr option \<Rightarrow> world \<Rightarrow> outcome" where
  "rotateNext cfg element w =
     run_stmts
       [\<lambda>w. Normal (w\<lparr>currentIndex :=
               js_rem (js_add (currentIndex w) (Finite 1))
                 (Finite (int (length (HERO_WORDS cfg))))\<rparr>),
        \<lambda>w. updateWord cfg element (array_get (HERO_WORDS cfg) (currentIndex w)) w]
       w"

definition WordRotation_start :: "config \<Rightarrow> real \<Rightarrow> world \<Rightarrow> outcome" where
  "WordRotation_start cfg rnd w =
     (case dollar ''#rotatingWord'' w of (rotatingWordElement, w1) \<Rightarrow>
        if rotatingWordElement = None then Normal w1
        else run_stmts
          [\<lambda>w. Normal (w\<lparr>currentIndex :=
                  getRandomInt rnd (Num (real (length (HERO_WORDS cfg))))\<rparr>),
           \<lambda>w. assign rotatingWordElement
                  (set_textContent (array_get (HERO_WORDS cfg) (currentIndex w))) w,
           assign rotatingWordElement
             (\<lambda>e. e\<lparr>transition :=
                ''opacity '' @ string_of_nat (WORD_FADE_DURATION cfg) @ ''ms ease''\<rparr>),
           \<lambda>w. case setInterval rotatingWordElement w of
                  (h, w') \<Rightarrow> Normal (w'\<lparr>intervalId := Some h\<rparr>)]
          w1)"

text \<open>\<open>if (intervalId)\<close>: \<open>null\<close> and the number zero are falsy.\<close>

definition WordRotation_stop :: "world \<Rightarrow> outcome" where
  "WordRotation_stop w =
     (case intervalId w of
        None \<Rightarrow> Normal w
      | Some h \<Rightarrow>
          if h = 0 then Normal w
          else Normal ((clearInterval h w)\<lparr>intervalId := None\<rparr>))"

subsection \<open>Hero image, preloading, bootstrap\<close>

definition setRandomImage :: "config \<Rightarrow> real \<Rightarrow> world \<Rightarrow> outcome" where
  "setRandomImage cfg rnd w =
     (case dollar ''#heroImg'' w of (heroImgElement, w1) \<Rightarrow>
        if heroImgElement = None then Normal w1
        else assign heroImgElement (set_src (getRandomItem rnd (HERO_IMAGES cfg))) w1)"

definition HeroImage_init :: "config \<Rightarrow> real \<Rightarrow> world \<Rightarrow> outcome" where
  "HeroImage_init cfg rnd w = setRandomImage cfg rnd w"

text \<open>Each \<open>new Image()\<close> with its \<open>src\<close> is recorded in \<open>images\<close>.\<close>

definition preloadImages :: "config \<Rightarrow> world \<Rightarrow> outcome" where
  "preloadImages cfg w =
     forEach (HERO_IMAGES cfg) (\<lambda>s w. Normal (w\<lparr>images := images w @ [s]\<rparr>)) w"

text \<open>
  \<open>initApp\<close>, first with its four callees as parameters (so that its error boundary can be
  studied for callees that throw), then with the callees of the script.
\<close>

definition initApp_of ::
  "(world \<Rightarrow> outcome) \<Rightarrow> (world \<Rightarrow> outcome) \<Rightarrow> (world \<Rightarrow> outcome) \<Rightarrow> (world \<Rightarrow> outcome)
     \<Rightarrow> world \<Rightarrow> outcome" where
  "initApp_of navigation_init wordRotation_start heroImage_init preload =
     try_catch
       (run_stmts [navigation_init, wordRotation_start, heroImage_init, preload])
       (console_error ''Error initializing application:'')"

definition initApp :: "config \<Rightarrow> real \<Rightarrow> real \<Rightarrow> world \<Rightarrow> outcome" where
  "initApp cfg rnd1 rnd2 =
     initApp_of Navigation_init (WordRotation_start cfg rnd1) (HeroImage_init cfg rnd2)
       (preloadImages cfg)"

text \<open>
  The last lines of the script bind \<open>initApp\<close> to the document-ready signal (or call it
  at once when the document has been parsed) and \<open>WordRotation.stop\<close> to \<open>beforeunload\<close>.
\<close>

subsection \<open>The event loop\<close>

text \<open>
  A timer fires: the callback of an interval runs and the interval stays active; the
  callback of a timeout runs once and its handle leaves the map. A handle that is not
  active fires nothing.
\<close>

definition fire :: "config \<Rightarrow> nat \<Rightarrow> world \<Rightarrow> outcome" where
  "fire cfg h w =
     (case timers w h of
        None \<Rightarrow> Normal w
      | Some (Interval el) \<Rightarrow> rotateNext cfg el w
      | Some (Timeout el newWord) \<Rightarrow>
          run_stmts
            [assign el (set_textContent newWord),
             assign el (\<lambda>e. e\<lparr>opacity := ''1''\<rparr>)]
            (w\<lparr>timers := (timers w)(h := None)\<rparr>))"

datatype event = CallStart real | CallStop | Fire nat

fun exec :: "config \<Rightarrow> event \<Rightarrow> world \<Rightarrow> outcome" where
  "exec cfg (CallStart rnd) w = WordRotation_start cfg rnd w"
| "exec cfg CallStop w = WordRotation_stop w"
| "exec cfg (Fire h) w = fire cfg h w"

text \<open>An exception that escapes a callback is reported by the browser; the page goes on.\<close>

fun run :: "config \<Rightarrow> event list \<Rightarrow> world \<Rightarrow> world" where
  "run cfg [] w = w"
| "run cfg (ev # evs) w = run cfg evs (world_of (exec cfg ev w))"

text \<open>How many events of a trace run the callback of a recurring timer.\<close>

fun is_rotation :: "event \<Rightarrow> world \<Rightarrow> bool" where
  "is_rotation (Fire h) w = (case timers w h of Some (Interval el) \<Rightarrow> True | _ \<Rightarrow> False)"
| "is_rotation _ w = False"

fun rotations :: "config \<Rightarrow> event list \<Rightarrow> world \<Rightarrow> nat" where
  "rotations cfg [] w = 0"
| "rotations cfg (ev # evs) w =
     (if is_rotation ev w then 1 else 0) + rotations cfg evs (world_of (exec cfg ev w))"

fun is_start :: "event \<Rightarrow> bool" where
  "is_start (CallStart rnd) = True"
| "is_start _ = False"

text \<open>The state of the page when the script has been loaded (lines 77, 130, 131).\<close>

definition page_load ::
  "(string \<Rightarrow> addr option) \<Rightarrow> (addr \<Rightarrow> addr list) \<Rightarrow> (addr \<Rightarrow> element) \<Rightarrow> world" where
  "page_load doc links els =
     \<lparr>querySelector = doc, anchors = links, heap = els, isMenuOpen = False,
      currentIndex = Finite 0, intervalId = None, timers = Map.empty, timerCount = 0,
      images = [], console = []\<rparr>"

subsection \<open>Two documents\<close>

text \<open>
  A document with the four elements the script looks up (and two links in the side
  menu), and a document with none of them. No element has a class or an attribute yet.
\<close>

definition blank_element :: element where
  "blank_element =
     \<lparr>classList = {}, attributes = (\<lambda>name. None), textContent = [], opacity = [],
      transition = [], src = [], listeners = []\<rparr>"

definition full_document :: "string \<Rightarrow> addr option" where
  "full_document selector =
     (if selector = ''#sideMenu'' then Some 0
      else if selector = ''#navCta'' then Some 1
      else if selector = ''#rotatingWord'' then Some 2
      else if selector = ''#heroImg'' then Some 3
      else None)"

definition full_page :: world where
  "full_page =
     page_load full_document (\<lambda>a. if a = 0 then [4, 5] else []) (\<lambda>a. blank_element)"

definition empty_page :: world where
  "empty_page = page_load (\<lambda>selector. None) (\<lambda>a. []) (\<lambda>a. blank_element)"

text \<open>
  The menu's visual state and accessibility attribute agree with \<open>isMenuOpen\<close>, as they do
  after every call of \<open>toggleMenu\<close> that found both elements.
\<close>

definition menu_in_sync :: "world \<Rightarrow> bool" where
  "menu_in_sync w =
     (case (querySelector w ''#sideMenu'', querySelector w ''#navCta'') of
        (Some sideMenu, Some navCta) \<Rightarrow>
          (''active'' \<in> classList (heap w sideMenu)) = isMenuOpen w
          \<and> (''active'' \<in> classList (heap w navCta)) = isMenuOpen w
          \<and> attributes (heap w navCta) ''aria-expanded'' = Some (string_of_bool (isMenuOpen w))
      | _ \<Rightarrow> False)"

subsection \<open>Predicates of the specification\<close>

text \<open>What the handler of \<open>initApp\<close>'s error boundary leaves: the error, logged.\<close>

definition logged :: "exn \<Rightarrow> world \<Rightarrow> world" where
  "logged e w = w\<lparr>console := console w @ [ErrorLog ''Error initializing application:'' e]\<rparr>"

text \<open>
  The recurring timer \<open>h\<close> is active, its handle has been drawn, and \<open>intervalId\<close> does not
  hold it.
\<close>

definition leaked :: "nat \<Rightarrow> addr option \<Rightarrow> world \<Rightarrow> bool" where
  "leaked h el w \<longleftrightarrow>
     timers w h = Some (Interval el) \<and> h \<le> timerCount w \<and> intervalId w \<noteq> Some h"

text \<open>
  The handle in \<open>intervalId\<close>, when there is one, has been drawn and is not the handle of
  a pending timeout.
\<close>

definition handle_ok :: "world \<Rightarrow> bool" where
  "handle_ok w \<longleftrightarrow>
     (case intervalId w of
        None \<Rightarrow> True
      | Some h \<Rightarrow>
          h \<le> timerCount w
          \<and> (case timers w h of Some (Timeout el s) \<Rightarrow> False | _ \<Rightarrow> True))"

text \<open>A trace in which \<open>start\<close> is only called while \<open>intervalId\<close> is \<open>null\<close>.\<close>

fun no_restart :: "config \<Rightarrow> event list \<Rightarrow> world \<Rightarrow> bool" where
  "no_restart cfg [] w = True"
| "no_restart cfg (ev # evs) w =
     ((if is_start ev then intervalId w = None else True)
      \<and> no_restart cfg evs (world_of (exec cfg ev w)))"

section \<open>Basic facts\<close>

lemma dollar_present: "querySelector w s = Some a \<Longrightarrow> dollar s w = (Some a, w)"
  by (simp add: dollar_def)

lemma dollar_absent:
  "querySelector w s = None \<Longrightarrow>
     dollar s w = (None, console_warn (''Element not found: '' @ s) w)"
  by (simp add: dollar_def)

lemma assign_Some: "assign (Some a) f w = Normal (w\<lparr>heap := (heap w)(a := f (heap w a))\<rparr>)"
  by (simp add: assign_def)

lemma run_stmts_no_throw:
  assumes "\<And>s w. s \<in> set ss \<Longrightarrow> thrown (s w) = None"
  shows "thrown (run_stmts ss w) = None"
  using assms
proof (induction ss arbitrary: w)
  case Nil
  then show ?case by simp
next
  case (Cons s ss)
  from Cons.prems [of s w] obtain w' where "s w = Normal w'"
    by (cases "s w") simp_all
  with Cons show ?case by simp
qed

lemma thrown_None_iff: "thrown r = None \<longleftrightarrow> r = Normal (world_of r)"
  by (cases r) simp_all

section \<open>Double-precision arithmetic\<close>

subsection \<open>Powers of two\<close>

lemma pow2_powr: "pow2 q = 2 powr of_int q"
proof (cases "0 \<le> q")
  case True
  have "(2 :: real) powr real (nat q) = 2 ^ nat q"
    by (rule powr_realpow) simp
  moreover from True have "real (nat q) = of_int q" by simp
  ultimately have "(2 :: real) powr of_int q = 2 ^ nat q" by simp
  with True show ?thesis by (simp add: pow2_def)
next
  case False
  have "(2 :: real) powr real (nat (- q)) = 2 ^ nat (- q)"
    by (rule powr_realpow) simp
  moreover from False have "real (nat (- q)) = - of_int q" by simp
  ultimately have neg: "(2 :: real) powr (- of_int q) = 2 ^ nat (- q)" by simp
  have "(2 :: real) powr of_int q = inverse (2 powr (- of_int q))"
    by (simp add: powr_minus)
  also have "\<dots> = 1 / 2 ^ nat (- q)" by (simp only: neg inverse_eq_divide)
  finally show ?thesis using False by (simp add: pow2_def)
qed

lemma pow2_pos [simp]: "0 < pow2 q"
  by (simp add: pow2_powr)

lemma pow2_nonneg [simp]: "0 \<le> pow2 q"
  by (simp add: pow2_powr)

lemma pow2_neq0 [simp]: "pow2 q \<noteq> 0"
  by (simp add: pow2_powr)

lemma pow2_add: "pow2 (a + b) = pow2 a * pow2 b"
  by (simp add: pow2_powr powr_add)

lemma pow2_nat: "pow2 (int n) = 2 ^ n"
  by (simp add: pow2_powr powr_realpow)

lemma pow2_0 [simp]: "pow2 0 = 1"
  by (simp add: pow2_powr)

lemma pow2_le_iff [simp]: "pow2 a \<le> pow2 b \<longleftrightarrow> a \<le> b"
  by (simp add: pow2_powr)

lemma pow2_less_iff [simp]: "pow2 a < pow2 b \<longleftrightarrow> a < b"
  by (simp add: pow2_powr)

lemma pow2_diff: "a \<le> b \<Longrightarrow> pow2 b = 2 ^ nat (b - a) * pow2 a"
proof -
  assume "a \<le> b"
  then have "b = int (nat (b - a)) + a" by simp
  then have "pow2 b = pow2 (int (nat (b - a)) + a)" by simp
  also have "\<dots> = 2 ^ nat (b - a) * pow2 a" by (simp only: pow2_add pow2_nat)
  finally show ?thesis .
qed

lemma pow2_minus: "pow2 (- q) = 1 / pow2 q"
proof -
  have "pow2 (- q) * pow2 q = 1" by (simp add: pow2_add [symmetric])
  then show ?thesis by (simp add: field_simps)
qed

lemma pow2_plus1: "pow2 (q + 1) = 2 * pow2 q"
proof -
  have "pow2 1 = 2" by (simp add: pow2_def)
  then show ?thesis by (simp add: pow2_add)
qed

subsection \<open>The leading bit\<close>

lemma ilog2_bounds:
  "0 < n \<Longrightarrow> 0 \<le> ilog2 n \<and> 2 ^ nat (ilog2 n) \<le> n \<and> n < 2 * 2 ^ nat (ilog2 n)"
proof (induction n rule: ilog2.induct)
  case (1 n)
  show ?case
  proof (cases "n < 2")
    case True
    with "1.prems" have "n = 1" by simp
    then show ?thesis by (simp add: ilog2.simps)
  next
    case False
    then have half: "0 < n div 2" by simp
    define k where "k = ilog2 (n div 2)"
    define P :: int where "P = 2 ^ nat k"
    from "1.IH" [OF False half] have k: "0 \<le> k" and lo: "P \<le> n div 2" and hi: "n div 2 < 2 * P"
      by (simp_all add: k_def P_def)
    have eq: "ilog2 n = k + 1"
      using False by (subst ilog2.simps) (simp add: k_def)
    from k have pw: "2 ^ nat (k + 1) = 2 * P"
      by (simp add: P_def nat_add_distrib)
    from lo have "2 * P \<le> n" by linarith
    moreover from hi have "n < 2 * (2 * P)" by linarith
    ultimately show ?thesis using k by (simp add: eq pw)
  qed
qed

lemma ilog2_real:
  assumes "0 < n"
  shows "pow2 (ilog2 n) \<le> of_int n" and "of_int n + 1 \<le> pow2 (ilog2 n + 1)"
proof -
  from ilog2_bounds [OF assms] have k: "0 \<le> ilog2 n" and a: "2 ^ nat (ilog2 n) \<le> n"
    and b: "n + 1 \<le> 2 * 2 ^ nat (ilog2 n)"
    by simp_all
  from k have p: "pow2 (ilog2 n) = 2 ^ nat (ilog2 n)" by (simp add: pow2_def)
  from a have "(of_int (2 ^ nat (ilog2 n)) :: real) \<le> of_int n" by (simp only: of_int_le_iff)
  then show "pow2 (ilog2 n) \<le> of_int n" by (simp add: p)
  from b have "(of_int (n + 1) :: real) \<le> of_int (2 * 2 ^ nat (ilog2 n))"
    by (simp only: of_int_le_iff)
  then show "of_int n + 1 \<le> pow2 (ilog2 n + 1)" by (simp add: p pow2_plus1)
qed

lemma exponent_bounds:
  assumes "0 < x"
  shows "pow2 (exponent x) \<le> x" and "x < pow2 (exponent x + 1)"
proof -
  have "pow2 (exponent x) \<le> x \<and> x < pow2 (exponent x + 1)"
  proof (cases "1 \<le> x")
    case True
    define n where "n = \<lfloor>x\<rfloor>"
    have n: "0 < n" using True by (simp add: n_def)
    have e: "exponent x = ilog2 n" using True by (simp add: exponent_def n_def)
    have nx: "of_int n \<le> x" and xn: "x < of_int n + 1"
      by (simp_all add: n_def)
    from ilog2_real [OF n] nx xn show ?thesis unfolding e by linarith
  next
    case False
    define n where "n = \<lceil>1 / x\<rceil> - 1"
    define k where "k = ilog2 n"
    from False assms have inv: "1 < 1 / x" by simp
    then have n: "0 < n" unfolding n_def by linarith
    have e: "exponent x = - k - 1"
      using False by (simp add: exponent_def n_def k_def)
    have up: "1 / x \<le> of_int n + 1" and low: "of_int n < 1 / x"
      unfolding n_def by linarith+
    from ilog2_real [OF n] up low have A: "1 / x \<le> pow2 (k + 1)" and B: "pow2 k < 1 / x"
      unfolding k_def by linarith+
    have "- k - 1 = - (k + 1)" by simp
    then have p1: "pow2 (- k - 1) = 1 / pow2 (k + 1)" by (simp only: pow2_minus)
    have p2: "pow2 (- k) = 1 / pow2 k" by (rule pow2_minus)
    from A assms have "1 / pow2 (k + 1) \<le> x"
      by (simp add: field_simps)
    moreover from B assms have "x < 1 / pow2 k"
      by (simp add: field_simps)
    ultimately show ?thesis by (simp add: e p1 p2)
  qed
  then show "pow2 (exponent x) \<le> x" and "x < pow2 (exponent x + 1)" by simp_all
qed

lemma exponent_eq:
  assumes "pow2 e \<le> x" and "x < pow2 (e + 1)"
  shows "exponent x = e"
proof -
  have "0 < pow2 e" by simp
  from this assms(1) have pos: "0 < x" by (rule less_le_trans)
  from exponent_bounds(1) [OF pos] assms(2) have "pow2 (exponent x) < pow2 (e + 1)"
    by (rule le_less_trans)
  moreover from assms(1) exponent_bounds(2) [OF pos] have "pow2 e < pow2 (exponent x + 1)"
    by (rule le_less_trans)
  ultimately have "exponent x < e + 1" and "e < exponent x + 1"
    by (simp_all only: pow2_less_iff)
  then show ?thesis by simp
qed

lemma pow2_numeral: "pow2 (numeral n) = 2 ^ numeral n"
  using pow2_nat [of "numeral n"] by simp

lemma pow2_neg_numeral: "pow2 (- numeral n) = 1 / 2 ^ numeral n"
  by (simp add: pow2_powr powr_neg_numeral)

lemma pow2_1: "pow2 1 = 2"
  by (simp add: pow2_powr)

lemma quantum_eq:
  assumes "pow2 e \<le> x" and "x < pow2 (e + 1)"
  shows "quantum x = max (e - 52) (- 1074)"
  using exponent_eq [OF assms] by (simp add: quantum_def)

subsection \<open>Rounding gives a nearest double\<close>

lemma significand_bound:
  fixes m :: int
  assumes "\<bar>m\<bar> < 2 ^ 53"
  shows "\<bar>of_int m :: real\<bar> < 2 ^ 53"
proof -
  from assms have "(of_int \<bar>m\<bar> :: real) < of_int (2 ^ 53)"
    by (simp only: of_int_less_iff)
  then show ?thesis by simp
qed

text \<open>The doubles are the reals \<open>m * 2\<^sup>p\<close> with \<open>\<bar>m\<bar> < 2\<^sup>5\<^sup>3\<close> and \<open>- 1074 \<le> p \<le> 971\<close>.\<close>

lemma is_double_iff:
  "is_double x \<longleftrightarrow>
     (\<exists>m p :: int. \<bar>m\<bar> < 2 ^ 53 \<and> - 1074 \<le> p \<and> p \<le> 971 \<and> x = of_int m * pow2 p)"
  (is "_ \<longleftrightarrow> ?R")
proof
  assume L: "is_double x"
  show ?R
  proof (cases "x = 0")
    case True
    then show ?thesis by (intro exI [of _ 0]) simp
  next
    case False
    define q where "q = quantum \<bar>x\<bar>"
    define y where "y = \<bar>x\<bar> / pow2 q"
    define M where "M = \<lfloor>y\<rfloor>"
    from L False have q2: "q \<le> 971" and whole: "of_int M = y"
      by (simp_all add: is_double_def Let_def q_def y_def M_def)
    have q1: "- 1074 \<le> q" by (simp add: q_def quantum_def)
    have pos: "0 < \<bar>x\<bar>" using False by simp
    have "exponent \<bar>x\<bar> + 1 \<le> q + 53" by (simp add: q_def quantum_def)
    then have "pow2 (exponent \<bar>x\<bar> + 1) \<le> pow2 (q + 53)" by (simp only: pow2_le_iff)
    with exponent_bounds(2) [OF pos] have "\<bar>x\<bar> < pow2 (q + 53)" by (rule less_le_trans)
    also have "\<dots> = 2 ^ 53 * pow2 q" using pow2_diff [of q "q + 53"] by simp
    finally have "y < 2 ^ 53" by (simp add: y_def divide_less_eq)
    with whole have "(of_int M :: real) < of_int (2 ^ 53)" by simp
    then have M2: "M < 2 ^ 53" by (simp only: of_int_less_iff)
    have "0 \<le> y" by (simp add: y_def)
    then have M1: "0 \<le> M" by (simp add: M_def)
    have ax: "\<bar>x\<bar> = of_int M * pow2 q" by (simp add: whole y_def)
    show ?thesis
    proof (cases "x < 0")
      case True
      with ax have "x = of_int (- M) * pow2 q" by simp
      with M1 M2 q1 q2 show ?thesis by (intro exI [of _ "- M"] exI [of _ q]) simp
    next
      case False
      with ax have "x = of_int M * pow2 q" by simp
      with M1 M2 q1 q2 show ?thesis by (intro exI [of _ M] exI [of _ q]) simp
    qed
  qed
next
  assume ?R
  then obtain m p :: int where m: "\<bar>m\<bar> < 2 ^ 53" and p1: "- 1074 \<le> p" and p2: "p \<le> 971"
    and x: "x = of_int m * pow2 p"
    by blast
  show "is_double x"
  proof (cases "x = 0")
    case True
    then show ?thesis by (simp add: is_double_def)
  next
    case False
    define q where "q = quantum \<bar>x\<bar>"
    have pos: "0 < \<bar>x\<bar>" using False by simp
    have ax: "\<bar>x\<bar> = \<bar>of_int m\<bar> * pow2 p" by (simp add: x abs_mult)
    from m have "\<bar>of_int m :: real\<bar> < 2 ^ 53" by (rule significand_bound)
    then have "\<bar>of_int m :: real\<bar> * pow2 p < 2 ^ 53 * pow2 p"
      by (intro mult_strict_right_mono) simp_all
    also have "\<dots> = pow2 (p + 53)" using pow2_diff [of p "p + 53"] by simp
    finally have "\<bar>x\<bar> < pow2 (p + 53)" by (simp only: ax)
    with exponent_bounds(1) [OF pos] have "pow2 (exponent \<bar>x\<bar>) < pow2 (p + 53)"
      by (rule le_less_trans)
    then have "exponent \<bar>x\<bar> < p + 53" by (simp only: pow2_less_iff)
    with p1 have qp: "q \<le> p" by (simp add: q_def quantum_def)
    have "\<bar>x\<bar> / pow2 q = of_int (\<bar>m\<bar> * 2 ^ nat (p - q))"
      by (simp add: ax pow2_diff [OF qp])
    then have "of_int \<lfloor>\<bar>x\<bar> / pow2 q\<rfloor> = \<bar>x\<bar> / pow2 q"
      by (simp only: floor_of_int)
    moreover from qp p2 have "q \<le> 971" by simp
    ultimately show ?thesis by (simp add: is_double_def Let_def q_def)
  qed
qed

lemma round_even_nearest: "\<bar>of_int (round_even y) - y\<bar> \<le> \<bar>of_int k - y\<bar>"
proof -
  define f where "f = \<lfloor>y\<rfloor>"
  have lo: "of_int f \<le> y" and hi: "y < of_int f + 1"
    by (simp_all add: f_def)
  consider "k \<le> f" | "f + 1 \<le> k" by linarith
  then show ?thesis
  proof cases
    case 1
    then have "(of_int k :: real) \<le> of_int f" by simp
    with lo hi show ?thesis
      by (auto simp add: round_even_def f_def [symmetric] Let_def)
  next
    case 2
    then have "(of_int f :: real) + 1 \<le> of_int k"
      by (metis of_int_1 of_int_add of_int_le_iff)
    with lo hi show ?thesis
      by (auto simp add: round_even_def f_def [symmetric] Let_def)
  qed
qed

lemma abs_scaled_diff:
  fixes a b c :: real
  assumes "0 < c"
  shows "\<bar>a * c - b * c\<bar> = c * \<bar>a - b\<bar>"
proof -
  have "a * c - b * c = (a - b) * c" by (simp add: algebra_simps)
  with assms show ?thesis by (simp add: abs_mult)
qed

lemma round_double_pos:
  "0 < x \<Longrightarrow> round_double x = of_int (round_even (x / pow2 (quantum x))) * pow2 (quantum x)"
  by (simp add: round_double_def)

lemma round_double_nearest:
  assumes "0 < x" and "is_double d"
  shows "\<bar>round_double x - x\<bar> \<le> \<bar>d - x\<bar>"
proof -
  define e where "e = exponent x"
  define q where "q = quantum x"
  define y where "y = x / pow2 q"
  define n where "n = round_even y"
  have xy: "x = y * pow2 q" by (simp add: y_def)
  have r: "round_double x = of_int n * pow2 q"
    using assms(1) by (simp add: round_double_pos n_def y_def q_def)
  have near: "\<bar>of_int n * pow2 q - x\<bar> \<le> \<bar>of_int k * pow2 q - x\<bar>" for k
  proof -
    have "\<bar>of_int n * pow2 q - x\<bar> = pow2 q * \<bar>of_int n - y\<bar>"
      unfolding xy by (rule abs_scaled_diff) simp
    also have "\<dots> \<le> pow2 q * \<bar>of_int k - y\<bar>"
      unfolding n_def by (intro mult_left_mono round_even_nearest) simp
    also have "\<dots> = \<bar>of_int k * pow2 q - x\<bar>"
      unfolding xy by (rule abs_scaled_diff [symmetric]) simp
    finally show ?thesis .
  qed
  from assms(2) obtain m p :: int where m: "\<bar>m\<bar> < 2 ^ 53" and p: "- 1074 \<le> p"
    and d: "d = of_int m * pow2 p"
    by (auto simp add: is_double_iff)
  show ?thesis
  proof (cases "q \<le> p")
    case True
    have "d = of_int (m * 2 ^ nat (p - q)) * pow2 q"
      by (simp add: d pow2_diff [OF True])
    with near [of "m * 2 ^ nat (p - q)"] r show ?thesis by simp
  next
    case False
    with p have q: "q = e - 52" by (simp add: q_def quantum_def e_def)
    have "\<bar>d\<bar> = \<bar>of_int m\<bar> * pow2 p" by (simp add: d abs_mult)
    also have "\<dots> \<le> \<bar>of_int m\<bar> * pow2 (q - 1)"
      using False by (intro mult_left_mono) simp_all
    also have "\<dots> < 2 ^ 53 * pow2 (q - 1)"
    proof -
      from m have "\<bar>of_int m :: real\<bar> < 2 ^ 53"
        by (rule significand_bound)
      then show ?thesis by simp
    qed
    also have "\<dots> = pow2 e"
      using pow2_diff [of "q - 1" e] by (simp add: q)
    finally have "\<bar>d\<bar> < pow2 e" .
    moreover have "pow2 e \<le> x" unfolding e_def using assms(1) by (rule exponent_bounds)
    ultimately have far: "d < pow2 e" "pow2 e \<le> x" by simp_all
    have "pow2 e = of_int (2 ^ 52) * pow2 q"
      using pow2_diff [of q e] by (simp add: q)
    with near [of "2 ^ 52"] have "\<bar>of_int n * pow2 q - x\<bar> \<le> \<bar>pow2 e - x\<bar>" by simp
    with far r show ?thesis by simp
  qed
qed

subsection \<open>Doubles\<close>

lemma is_double_0 [simp]: "is_double 0"
  unfolding is_double_iff by (intro exI [of _ 0]) simp

lemma is_double_neg: "is_double (- d) \<longleftrightarrow> is_double d"
proof -
  have "is_double (- x)" if "is_double x" for x
  proof -
    from that obtain m p :: int where "\<bar>m\<bar> < 2 ^ 53" "- 1074 \<le> p" "p \<le> 971"
      "x = of_int m * pow2 p"
      by (auto simp add: is_double_iff)
    then have "\<bar>- m\<bar> < 2 ^ 53 \<and> - 1074 \<le> p \<and> p \<le> 971 \<and> - x = of_int (- m) * pow2 p"
      by simp
    then show ?thesis unfolding is_double_iff by blast
  qed
  from this [of d] this [of "- d"] show ?thesis by auto
qed

lemma is_double_dyadic:
  assumes "\<bar>m\<bar> < 2 ^ 53" and "k \<le> 1074"
  shows "is_double (of_int m / 2 ^ k)"
proof -
  have "pow2 (- int k) = 1 / 2 ^ k"
    by (simp add: pow2_powr powr_minus powr_realpow inverse_eq_divide)
  then have "of_int m / 2 ^ k = of_int m * pow2 (- int k)" by simp
  with assms show ?thesis unfolding is_double_iff
    by (intro exI [of _ m] exI [of _ "- int k"]) simp
qed

lemma is_double_int: "\<bar>i\<bar> < 2 ^ 53 \<Longrightarrow> is_double (of_int i)"
  using is_double_dyadic [of i 0] by simp

lemma is_double_nat: "n < 2 ^ 53 \<Longrightarrow> is_double (real n)"
  using is_double_int [of "int n"] by simp

lemma is_double_numeral: "(numeral k :: nat) < 2 ^ 53 \<Longrightarrow> is_double (numeral k)"
  using is_double_nat [of "numeral k"] by simp

lemma is_double_bound:
  assumes "is_double x"
  shows "\<bar>x\<bar> < pow2 1024"
proof -
  from assms obtain m p :: int where m: "\<bar>m\<bar> < 2 ^ 53" and p: "p \<le> 971"
    and x: "x = of_int m * pow2 p"
    by (auto simp add: is_double_iff)
  from m have "\<bar>of_int m :: real\<bar> < 2 ^ 53"
    by (rule significand_bound)
  then have "\<bar>of_int m :: real\<bar> * pow2 p < 2 ^ 53 * pow2 p"
    by (intro mult_strict_right_mono) simp_all
  also have "\<dots> = pow2 (p + 53)"
    using pow2_diff [of p "p + 53"] by simp
  also have "\<dots> \<le> pow2 1024" using p by simp
  finally show ?thesis by (simp add: x abs_mult)
qed

lemma round_double_neg: "round_double (- x) = - round_double x"
  by (simp add: round_double_def sgn_minus)



lemma round_double_double:
  assumes "is_double d"
  shows "round_double d = d"
proof -
  have pos: "round_double x = x" if "is_double x" and "0 < x" for x
    using round_double_nearest [OF that(2) that(1)] by simp
  consider "d = 0" | "0 < d" | "d < 0" by linarith
  then show ?thesis
  proof cases
    case 1
    then show ?thesis by (simp add: round_double_def)
  next
    case 2
    with assms show ?thesis by (rule pos)
  next
    case 3
    with assms have "round_double (- d) = - d"
      by (intro pos) (simp_all add: is_double_neg)
    then show ?thesis by (simp add: round_double_neg)
  qed
qed

lemma unit_double_le:
  assumes "is_double r" and "r < 1"
  shows "r \<le> 1 - 1 / 2 ^ 53"
proof -
  from assms(1) obtain m p :: int where m: "\<bar>m\<bar> < 2 ^ 53" and r: "r = of_int m * pow2 p"
    by (auto simp add: is_double_iff)
  show ?thesis
  proof (cases "- 53 \<le> p")
    case True
    define K where "K = m * 2 ^ nat (p + 53)"
    have "pow2 p = 2 ^ nat (p + 53) * pow2 (- 53)"
      using pow2_diff [of "- 53" p] True by simp
    moreover have "pow2 (- 53) = 1 / 2 ^ 53"
      by (simp add: pow2_powr powr_neg_numeral)
    ultimately have rK: "r = of_int K / 2 ^ 53" by (simp add: r K_def)
    with assms(2) have "(of_int K :: real) < of_int (2 ^ 53)" by (simp add: divide_less_eq)
    then have "K < 2 ^ 53" by (simp only: of_int_less_iff)
    then have "K \<le> 2 ^ 53 - 1" by simp
    then have "(of_int K :: real) \<le> of_int (2 ^ 53 - 1)" by (simp only: of_int_le_iff)
    then have "(of_int K :: real) \<le> 2 ^ 53 - 1" by simp
    then show ?thesis by (simp add: rK field_simps)
  next
    case False
    then have "pow2 p \<le> pow2 (- 54)" by simp
    moreover have "pow2 (- 54) = 1 / 2 ^ 54"
      by (simp add: pow2_powr powr_neg_numeral)
    moreover from m have "\<bar>of_int m :: real\<bar> < 2 ^ 53"
      by (rule significand_bound)
    ultimately have "\<bar>of_int m :: real\<bar> * pow2 p \<le> 2 ^ 53 * (1 / 2 ^ 54)"
      by (intro mult_mono) simp_all
    then have "\<bar>r\<bar> \<le> 1 / 2" by (simp add: r abs_mult)
    then show ?thesis by simp
  qed
qed

lemma normal_double:
  assumes "is_double x" and "1 \<le> x"
  obtains M q :: int where "2 ^ 52 \<le> M" and "M < 2 ^ 53" and "- 52 \<le> q" and "q \<le> 971"
    and "x = of_int M * pow2 q"
proof -
  from assms(1) obtain m p :: int where m: "\<bar>m\<bar> < 2 ^ 53" and p: "p \<le> 971"
    and x: "x = of_int m * pow2 p"
    by (auto simp add: is_double_iff)
  have pos: "0 < x" using assms(2) by simp
  define e where "e = exponent x"
  define q where "q = e - 52"
  have lo: "pow2 e \<le> x" and hi: "x < pow2 (e + 1)"
    unfolding e_def using pos by (rule exponent_bounds)+
  have "pow2 0 \<le> x" using assms(2) by simp
  from this hi have "pow2 0 < pow2 (e + 1)" by (rule le_less_trans)
  then have "0 < e + 1" by (simp only: pow2_less_iff)
  then have e0: "0 \<le> e" by simp
  from m have "\<bar>of_int m :: real\<bar> < 2 ^ 53"
    by (rule significand_bound)
  then have up: "\<bar>of_int m :: real\<bar> * pow2 p < 2 ^ 53 * pow2 p"
    by (intro mult_strict_right_mono) simp_all
  have "x \<le> \<bar>of_int m :: real\<bar> * pow2 p"
    unfolding x by (intro mult_right_mono) simp_all
  from this up have "x < 2 ^ 53 * pow2 p" by (rule le_less_trans)
  also have "\<dots> = pow2 (p + 53)"
    using pow2_diff [of p "p + 53"] by simp
  finally have "x < pow2 (p + 53)" .
  with lo have "pow2 e < pow2 (p + 53)" by (rule le_less_trans)
  then have "e < p + 53" by (simp only: pow2_less_iff)
  then have qp: "q \<le> p" by (simp add: q_def)
  define M where "M = m * 2 ^ nat (p - q)"
  have xM: "x = of_int M * pow2 q"
    by (simp add: x M_def pow2_diff [OF qp])
  have "pow2 e = 2 ^ 52 * pow2 q"
    using pow2_diff [of q e] by (simp add: q_def)
  with lo xM have "(of_int (2 ^ 52) :: real) \<le> of_int M" by simp
  then have M1: "2 ^ 52 \<le> M" by (simp only: of_int_le_iff)
  have "pow2 (e + 1) = 2 ^ 53 * pow2 q"
    using pow2_diff [of q "e + 1"] by (simp add: q_def)
  with hi xM have "(of_int M :: real) < of_int (2 ^ 53)" by simp
  then have M2: "M < 2 ^ 53" by (simp only: of_int_less_iff)
  from e0 have "- 52 \<le> q" by (simp add: q_def)
  with M1 M2 qp p xM show ?thesis by (intro that [of M q]) simp_all
qed

subsection \<open>The product of a random number and a bound\<close>

lemma number_of_real_finite:
  assumes "\<bar>round_double x\<bar> < pow2 1024"
  shows "number_of_real x = Num (round_double x)"
proof -
  from assms have "\<not> pow2 1024 \<le> round_double x" and "\<not> round_double x \<le> - pow2 1024"
    by linarith+
  then show ?thesis by (simp add: number_of_real_def Let_def)
qed

lemma number_of_double: "is_double x \<Longrightarrow> number_of_real x = Num x"
  using is_double_bound [of x] number_of_real_finite [of x] by (simp add: round_double_double)

lemma getRandomInt_exact:
  "is_double (rnd * maxv) \<Longrightarrow> getRandomInt rnd (Num maxv) = Finite \<lfloor>rnd * maxv\<rfloor>"
  by (simp add: getRandomInt_def number_of_double)

lemma round_product:
  assumes "is_double r" and "0 \<le> r" and "r < 1" and "is_double mx" and "0 < mx"
  shows "0 \<le> round_double (r * mx)" and "round_double (r * mx) \<le> mx"
    and "1 \<le> mx \<Longrightarrow> round_double (r * mx) < mx"
proof -
  define x where "x = r * mx"
  define y where "y = round_double x"
  define g where "g = mx / 2 ^ 53"
  have x0: "0 \<le> x" using assms by (simp add: x_def)
  have "r * mx \<le> (1 - 1 / 2 ^ 53) * mx"
    using unit_double_le [OF assms(1,3)] assms(5) by (intro mult_right_mono) simp_all
  then have xg: "x \<le> mx - g" by (simp add: x_def g_def algebra_simps)
  have g0: "0 < g" using assms(5) by (simp add: g_def)
  have near: "\<bar>y - x\<bar> \<le> \<bar>d - x\<bar>" if "is_double d" and "x \<noteq> 0" for d
    unfolding y_def using x0 that by (intro round_double_nearest) simp_all
  have zero: "y = 0" if "x = 0" using that by (simp add: y_def round_double_def)
  show lo: "0 \<le> round_double (r * mx)"
  proof (cases "x = 0")
    case True
    with zero show ?thesis by (simp add: y_def x_def)
  next
    case False
    from near [OF is_double_0 False] x0 have "0 \<le> y" by simp
    then show ?thesis by (simp add: y_def x_def)
  qed
  show hi: "round_double (r * mx) \<le> mx"
  proof (cases "x = 0")
    case True
    with zero assms(5) show ?thesis by (simp add: y_def x_def)
  next
    case False
    from near [OF assms(4) False] xg g0 have "y \<le> mx" by simp
    then show ?thesis by (simp add: y_def x_def)
  qed
  show "round_double (r * mx) < mx" if "1 \<le> mx"
  proof (cases "x = 0")
    case True
    with zero assms(5) show ?thesis by (simp add: y_def x_def)
  next
    case False
    from assms(4) that obtain M q :: int where M1: "2 ^ 52 \<le> M" and M2: "M < 2 ^ 53"
      and q1: "- 52 \<le> q" and q2: "q \<le> 971" and mx: "mx = of_int M * pow2 q"
      by (rule normal_double)
    have "y < mx"
    proof (cases "M = 2 ^ 52")
      case True
      have "pow2 q = 2 * pow2 (q - 1)" using pow2_diff [of "q - 1" q] by simp
      then have "mx - g = of_int (2 ^ 53 - 1) * pow2 (q - 1)"
        by (simp add: mx g_def True algebra_simps)
      moreover have "is_double (of_int (2 ^ 53 - 1) * pow2 (q - 1))"
        unfolding is_double_iff using q1 q2
        by (intro exI [of _ "2 ^ 53 - 1"] exI [of _ "q - 1"]) simp
      ultimately have "is_double (mx - g)" by simp
      from near [OF this False] xg g0 show ?thesis by simp
    next
      case False
      with M1 have "2 ^ 52 + 1 \<le> M" by simp
      then have "(of_int (2 ^ 52 + 1) :: real) \<le> of_int M" by (simp only: of_int_le_iff)
      then have "(2 ^ 52 :: real) < of_int M" by simp
      then have "pow2 q / 2 < g"
        by (simp add: g_def mx field_simps)
      moreover have "mx - pow2 q = of_int (M - 1) * pow2 q"
        by (simp add: mx algebra_simps)
      moreover have "is_double (of_int (M - 1) * pow2 q)"
        unfolding is_double_iff using M1 M2 q1 q2
        by (intro exI [of _ "M - 1"] exI [of _ q]) simp
      ultimately have d: "is_double (mx - pow2 q)" and gap: "pow2 q < 2 * g" by simp_all
      have "0 < pow2 q" by simp
      with near [OF d \<open>x \<noteq> 0\<close>] xg g0 gap show ?thesis by linarith
    qed
    then show ?thesis by (simp add: y_def x_def)
  qed
qed

lemma getRandomInt_in_range:
  assumes "is_double rnd" and "0 \<le> rnd" and "rnd < 1" and "is_double maxv" and "0 < maxv"
  obtains i where "getRandomInt rnd (Num maxv) = Finite i" and "0 \<le> i"
    and "real_of_int i < maxv"
proof -
  define y where "y = round_double (rnd * maxv)"
  note bounds = round_product [OF assms, folded y_def]
  from is_double_bound [OF assms(4)] bounds(1,2) have "\<bar>y\<bar> < pow2 1024" by simp
  then have res: "getRandomInt rnd (Num maxv) = Finite \<lfloor>y\<rfloor>"
    unfolding y_def by (simp add: getRandomInt_def number_of_real_finite)
  have low: "0 \<le> \<lfloor>y\<rfloor>" using bounds(1) by simp
  have "real_of_int \<lfloor>y\<rfloor> < maxv"
  proof (cases "1 \<le> maxv")
    case True
    from of_int_floor_le [of y] bounds(3) [OF this] show ?thesis by (rule le_less_trans)
  next
    case False
    with bounds(2) have "y < 1" by simp
    with bounds(1) have "\<lfloor>y\<rfloor> = 0" by (simp add: floor_eq_iff)
    with assms(5) show ?thesis by simp
  qed
  with res low show ?thesis by (rule that)
qed

section \<open>Running the script on a page\<close>

text \<open>The definitions a run of the script on a given page unfolds to.\<close>

lemmas script_defs =
  WordRotation_start_def WordRotation_stop_def rotateNext_def updateWord_def fire_def
  dollar_def assign_def setInterval_def setTimeout_def set_timer_def clearInterval_def
  set_textContent_def console_warn_def getRandomInt_exact is_double_numeral Let_def

lemmas page_defs =
  full_page_def empty_page_def page_load_def full_document_def blank_element_def CONFIG_def

section \<open>The utility functions\<close>

text \<open>
  The rounding is the machine's, not the floor of the exact product: for the double
  nearest to 0.3 the exact product with 10 lies below 3 and floors to 2, the double
  product is 3, and \<open>getRandomInt(10)\<close> is 3.
\<close>

lemma getRandomInt_rounds_up:
  "getRandomInt (5404319552844595 / 2 ^ 54) (Num 10) = Finite 3
   \<and> \<lfloor>5404319552844595 / 2 ^ 54 * (10 :: real)\<rfloor> = 2"
proof -
  define x :: real where "x = 5404319552844595 / 2 ^ 54 * 10"
  have "pow2 1 \<le> x" and "x < pow2 (1 + 1)"
    by (simp_all add: x_def pow2_1 pow2_numeral)
  then have q: "quantum x = - 51"
    using quantum_eq [of 1 x] by simp
  have scaled: "x / pow2 (- 51) = 27021597764222975 / 4"
    by (simp add: x_def pow2_neg_numeral)
  have nearest: "round_even (27021597764222975 / 4) = 6755399441055744"
    by (simp add: round_even_def Let_def)
  have "0 < x" by (simp add: x_def)
  then have "round_double x = of_int (round_even (x / pow2 (- 51))) * pow2 (- 51)"
    by (simp only: round_double_pos q)
  also have "\<dots> = 3"
    by (simp only: scaled nearest) (simp add: pow2_neg_numeral)
  finally have "round_double x = 3" .
  moreover have "(3 :: real) < pow2 1024"
    using pow2_less_iff [of 2 1024] by (simp add: pow2_numeral)
  ultimately have "number_of_real x = Num 3"
    by (simp add: number_of_real_finite)
  moreover have "\<lfloor>x\<rfloor> = 2" by (simp add: x_def)
  ultimately show ?thesis by (simp add: getRandomInt_def x_def)
qed

text \<open>
  Claim C5, as amended. For every finite \<open>max > 0\<close> and every value \<open>rnd\<close> of the
  random-number source (a double with \<open>0 \<le> rnd < 1\<close>), \<open>getRandomInt(max)\<close> is an integer
  in the half-open range \<open>[0, max)\<close>; and for every array that is not empty (a JavaScript
  array has fewer than \<open>2\<^sup>3\<^sup>2\<close> elements), \<open>getRandomItem(array)\<close> is an element of the
  array.
\<close>

theorem getRandomInt_range:
  assumes "is_double rnd" and "0 \<le> rnd" and "rnd < 1"
  shows "(is_double maxv \<and> 0 < maxv \<longrightarrow>
            integer_in_range (getRandomInt rnd (Num maxv)) (Num maxv))
    \<and> (array \<noteq> [] \<and> length array < 2 ^ 32 \<longrightarrow>
          (\<exists>x. getRandomItem rnd array = Some x \<and> x \<in> set array))"
proof -
  have range: "integer_in_range (getRandomInt rnd (Num m)) (Num m)"
    if "is_double m" and "0 < m" for m
  proof -
    from assms that obtain i where "getRandomInt rnd (Num m) = Finite i" and "0 \<le> i"
      and "real_of_int i < m"
      by (rule getRandomInt_in_range)
    then show ?thesis by simp
  qed
  have item: "\<exists>x. getRandomItem rnd array = Some x \<and> x \<in> set array"
    if "array \<noteq> []" and "length array < 2 ^ 32"
  proof -
    have "length array < 2 ^ 53" using that(2) by simp
    then have len: "is_double (real (length array))" by (rule is_double_nat)
    have pos: "0 < real (length array)" using that(1) by simp
    from assms len pos obtain i
      where "getRandomInt rnd (Num (real (length array))) = Finite i"
      and "0 \<le> i" and "real_of_int i < real (length array)"
      by (rule getRandomInt_in_range)
    then show ?thesis by (simp add: getRandomItem_def)
  qed
  from range item show ?thesis by blast
qed

text \<open>
  The theorem at \<open>rnd = 1/2\<close>: \<open>getRandomInt(10)\<close> is 5, and \<open>getRandomItem\<close> of the four
  configured images is the third of them.
\<close>

theorem getRandomInt_range_witness:
  "integer_in_range (getRandomInt (1/2) (Num 10)) (Num 10)
   \<and> getRandomInt (1/2) (Num 10) = Finite 5
   \<and> (\<exists>x. getRandomItem (1/2) (HERO_IMAGES CONFIG) = Some x \<and> x \<in> set (HERO_IMAGES CONFIG))
   \<and> getRandomItem (1/2) (HERO_IMAGES CONFIG) = Some ''images/hero-3.png''"
proof -
  have half: "is_double (1/2)"
    using is_double_dyadic [of 1 1] by simp
  have ten: "is_double 10"
    by (simp add: is_double_numeral)
  from getRandomInt_range [OF half, of 10 "HERO_IMAGES CONFIG"] ten show ?thesis
    by (simp add: CONFIG_def getRandomInt_exact getRandomItem_def is_double_numeral)
qed

text \<open>
  Claim C5 as it is stated fails at \<open>max = 0\<close>, at \<open>max = Infinity\<close> and at the empty array:
  \<open>getRandomInt(0)\<close> is 0, which is not in the empty range \<open>[0, 0)\<close>;
  \<open>getRandomInt(Infinity)\<close> is \<open>Infinity\<close> (or \<open>NaN\<close> when \<open>Math.random()\<close> is 0), which is
  not an integer; and \<open>getRandomItem([])\<close> is \<open>undefined\<close>, which is not an element of the
  array.
\<close>

theorem getRandomInt_zero_counterexample:
  "getRandomInt (1/2) (Num 0) = Finite 0
   \<and> \<not> integer_in_range (getRandomInt (1/2) (Num 0)) (Num 0)
   \<and> getRandomInt (1/2) Infinity = PosInfinity
   \<and> getRandomInt 0 Infinity = NaN
   \<and> \<not> integer_in_range (getRandomInt (1/2) Infinity) Infinity
   \<and> getRandomItem (1/2) ([] :: string list) = None"
proof -
  have zero: "getRandomInt (1/2) (Num 0) = Finite 0"
    by (simp add: getRandomInt_exact)
  have infinite: "getRandomInt (1/2) Infinity = PosInfinity" "getRandomInt 0 Infinity = NaN"
    by (simp_all add: getRandomInt_def)
  from zero infinite show ?thesis by (simp add: getRandomItem_def)
qed

section \<open>Navigation\<close>

text \<open>
  Claim C7. If the side-menu container or the trigger control is missing when \<open>toggleMenu\<close>
  is called, \<open>toggleMenu\<close> returns without an exception and leaves every variable of the
  script, the document and the timers as they were: \<open>isMenuOpen\<close> is not flipped. The
  only effect is the console warning of the lookup helper for each missing element.
\<close>

theorem toggleMenu_missing_element:
  assumes "querySelector w ''#sideMenu'' = None \<or> querySelector w ''#navCta'' = None"
  shows "toggleMenu w =
     Normal (w\<lparr>console := console w
        @ (if querySelector w ''#sideMenu'' = None
           then [Warn ''Element not found: #sideMenu''] else [])
        @ (if querySelector w ''#navCta'' = None
           then [Warn ''Element not found: #navCta''] else [])\<rparr>)
     \<and> isMenuOpen (world_of (toggleMenu w)) = isMenuOpen w
     \<and> heap (world_of (toggleMenu w)) = heap w"
  using assms by (auto simp add: toggleMenu_def dollar_def console_warn_def Let_def)

text \<open>The theorem on the document that has neither element: two warnings, nothing else.\<close>

theorem toggleMenu_missing_element_witness:
  "toggleMenu empty_page =
     Normal (empty_page\<lparr>console :=
       [Warn ''Element not found: #sideMenu'', Warn ''Element not found: #navCta'']\<rparr>)
   \<and> isMenuOpen (world_of (toggleMenu empty_page)) = False"
  using toggleMenu_missing_element [of empty_page]
  by (simp add: empty_page_def page_load_def)

lemma toggleMenu_present:
  assumes "querySelector w ''#sideMenu'' = Some s" and "querySelector w ''#navCta'' = Some n"
  shows "toggleMenu w =
     Normal (w\<lparr>isMenuOpen := \<not> isMenuOpen w,
        heap := ((heap w)(s := classList_toggle ''active'' (\<not> isMenuOpen w) (heap w s)))
          (n := setAttribute ''aria-expanded'' (string_of_bool (\<not> isMenuOpen w))
             (classList_toggle ''active'' (\<not> isMenuOpen w)
                (((heap w)(s := classList_toggle ''active'' (\<not> isMenuOpen w) (heap w s)))
                   n)))\<rparr>)"
  using assms
  by (simp add: toggleMenu_def dollar_present assign_Some)

lemma toggle_back_class:
  "(token \<in> classList e) = b \<Longrightarrow>
     classList_toggle token b (classList_toggle token (\<not> b) e) = e"
  by (cases b) (auto simp add: classList_toggle_def insert_absorb)

lemma toggle_back_attribute:
  assumes "(token \<in> classList e) = b" and "attributes e name = Some v"
  shows "setAttribute name v (classList_toggle token b
       (setAttribute name v' (classList_toggle token (\<not> b) e))) = e"
  using assms
  by (cases b) (auto simp add: setAttribute_def classList_toggle_def fun_upd_idem insert_absorb)

lemma toggle_back_both:
  assumes "(token \<in> classList e) = b" and "attributes e name = Some v"
  shows "setAttribute name v (classList_toggle token b (classList_toggle token b
       (setAttribute name v'
          (classList_toggle token (\<not> b) (classList_toggle token (\<not> b) e))))) = e"
  using assms
  by (cases b) (auto simp add: setAttribute_def classList_toggle_def fun_upd_idem insert_absorb)

text \<open>
  Claim C4, as amended. For every starting state in which the side-menu container and the
  trigger control are both present and their \<open>active\<close> class and the trigger's
  \<open>aria-expanded\<close> attribute agree with \<open>isMenuOpen\<close> (\<open>menu_in_sync\<close>: the state every call
  of \<open>toggleMenu\<close> leaves), calling \<open>toggleMenu\<close> twice returns \<open>isMenuOpen\<close>, the class on
  both elements and the attribute to their values before the first call; indeed the whole
  state is as before. The first call flips \<open>isMenuOpen\<close>, and neither call throws.
\<close>

theorem toggleMenu_twice:
  assumes "menu_in_sync w"
  shows "thrown (toggleMenu w) = None
    \<and> isMenuOpen (world_of (toggleMenu w)) = (\<not> isMenuOpen w)
    \<and> menu_in_sync (world_of (toggleMenu w))
    \<and> toggleMenu (world_of (toggleMenu w)) = Normal w"
proof -
  from assms obtain s n where s: "querySelector w ''#sideMenu'' = Some s"
    and n: "querySelector w ''#navCta'' = Some n"
    and cs: "(''active'' \<in> classList (heap w s)) = isMenuOpen w"
    and cn: "(''active'' \<in> classList (heap w n)) = isMenuOpen w"
    and ar: "attributes (heap w n) ''aria-expanded'' = Some (string_of_bool (isMenuOpen w))"
    by (auto simp add: menu_in_sync_def split: option.splits)
  define w1 where "w1 = world_of (toggleMenu w)"
  have q1: "querySelector w1 ''#sideMenu'' = Some s" "querySelector w1 ''#navCta'' = Some n"
    by (simp_all add: w1_def toggleMenu_present [OF s n] s n)
  have open1: "isMenuOpen w1 = (\<not> isMenuOpen w)"
    by (simp add: w1_def toggleMenu_present [OF s n])
  have sync1: "menu_in_sync w1"
    by (simp add: menu_in_sync_def w1_def toggleMenu_present [OF s n] s n
        setAttribute_def classList_toggle_def)
  have heap1: "heap w1 =
      ((heap w)(s := classList_toggle ''active'' (\<not> isMenuOpen w) (heap w s)))
          (n := setAttribute ''aria-expanded'' (string_of_bool (\<not> isMenuOpen w))
             (classList_toggle ''active'' (\<not> isMenuOpen w)
                (((heap w)(s := classList_toggle ''active'' (\<not> isMenuOpen w) (heap w s)))
                   n)))"
    by (simp add: w1_def toggleMenu_present [OF s n])
  have rest1: "w1\<lparr>isMenuOpen := isMenuOpen w, heap := heap w\<rparr> = w"
    by (simp add: w1_def toggleMenu_present [OF s n])
  have restore: "((heap w1)(s := classList_toggle ''active'' (isMenuOpen w) (heap w1 s)))
          (n := setAttribute ''aria-expanded'' (string_of_bool (isMenuOpen w))
             (classList_toggle ''active'' (isMenuOpen w)
                (((heap w1)(s := classList_toggle ''active'' (isMenuOpen w) (heap w1 s))) n)))
        = heap w"
  proof (cases "s = n")
    case True
    with cn ar show ?thesis
      by (simp add: heap1 toggle_back_both fun_upd_idem)
  next
    case False
    with cs cn ar show ?thesis
      by (auto simp add: heap1 fun_eq_iff toggle_back_class toggle_back_attribute)
  qed
  have "toggleMenu w1 = Normal (w1\<lparr>isMenuOpen := isMenuOpen w, heap := heap w\<rparr>)"
    using toggleMenu_present [OF q1] unfolding open1 not_not restore .
  with rest1 have second: "toggleMenu w1 = Normal w" by simp
  have "thrown (toggleMenu w) = None"
    by (simp add: toggleMenu_present [OF s n])
  with open1 sync1 second show ?thesis
    unfolding w1_def by blast
qed

text \<open>
  The theorem on the full document after a first click: the menu is open and in sync, and
  two more calls of \<open>toggleMenu\<close> lead back to that state.
\<close>

theorem toggleMenu_twice_witness:
  "menu_in_sync (world_of (toggleMenu full_page))
   \<and> isMenuOpen (world_of (toggleMenu full_page)) = True
   \<and> isMenuOpen (world_of (toggleMenu (world_of (toggleMenu full_page)))) = False
   \<and> toggleMenu (world_of (toggleMenu (world_of (toggleMenu full_page)))) =
       Normal (world_of (toggleMenu full_page))"
proof -
  have sync: "menu_in_sync (world_of (toggleMenu full_page))"
    by (simp add: menu_in_sync_def toggleMenu_def dollar_def assign_Some full_page_def
        page_load_def full_document_def classList_toggle_def setAttribute_def
        string_of_bool_def)
  have "isMenuOpen (world_of (toggleMenu full_page)) = True"
    by (simp add: toggleMenu_def dollar_def assign_Some full_page_def
        page_load_def full_document_def)
  with sync toggleMenu_twice [OF sync] show ?thesis by simp
qed

text \<open>
  Claim C4 as it is stated fails on a freshly loaded page whose trigger control has no
  \<open>aria-expanded\<close> attribute: both elements are present, and after two calls of
  \<open>toggleMenu\<close> the attribute is \<open>"false"\<close>, not absent as it was before the first call.
\<close>

theorem toggleMenu_twice_counterexample:
  "querySelector full_page ''#sideMenu'' = Some 0
   \<and> querySelector full_page ''#navCta'' = Some 1
   \<and> attributes (heap full_page 1) ''aria-expanded'' = None
   \<and> attributes (heap (world_of (toggleMenu (world_of (toggleMenu full_page)))) 1)
        ''aria-expanded'' = Some ''false''"
  by (simp add: toggleMenu_def dollar_def assign_Some full_page_def
        page_load_def full_document_def classList_toggle_def setAttribute_def
        string_of_bool_def blank_element_def)

section \<open>Word rotation: start and stop\<close>

lemma start_present:
  assumes "querySelector w ''#rotatingWord'' = Some a"
  shows "WordRotation_start cfg rnd w =
     Normal (w\<lparr>currentIndex := getRandomInt rnd (Num (real (length (HERO_WORDS cfg)))),
        heap := (heap w)(a := (heap w a)
          \<lparr>textContent :=
             (case array_get (HERO_WORDS cfg)
                     (getRandomInt rnd (Num (real (length (HERO_WORDS cfg))))) of
                None \<Rightarrow> [] | Some s \<Rightarrow> s),
           transition := ''opacity '' @ string_of_nat (WORD_FADE_DURATION cfg) @ ''ms ease''\<rparr>),
        timers := (timers w)(Suc (timerCount w) \<mapsto> Interval (Some a)),
        timerCount := Suc (timerCount w),
        intervalId := Some (Suc (timerCount w))\<rparr>)"
  using assms
  by (simp add: WordRotation_start_def dollar_present assign_Some setInterval_def
      set_timer_def set_textContent_def Let_def)

lemma start_absent:
  "querySelector w ''#rotatingWord'' = None \<Longrightarrow>
     WordRotation_start cfg rnd w =
       Normal (w\<lparr>console := console w @ [Warn ''Element not found: #rotatingWord'']\<rparr>)"
  by (simp add: WordRotation_start_def dollar_absent console_warn_def)

lemma stop_cases:
  "WordRotation_stop w =
     Normal (case intervalId w of
        None \<Rightarrow> w
      | Some h \<Rightarrow>
          if h = 0 then w else w\<lparr>timers := (timers w)(h := None), intervalId := None\<rparr>)"
  by (simp add: WordRotation_stop_def clearInterval_def split: option.split)

lemma fire_inactive: "timers w h = None \<Longrightarrow> fire cfg h w = Normal w"
  by (simp add: fire_def)

lemma fire_interval:
  assumes "timers w h = Some (Interval (Some a))"
  shows "fire cfg h w =
     Normal (w\<lparr>currentIndex :=
          js_rem (js_add (currentIndex w) (Finite 1)) (Finite (int (length (HERO_WORDS cfg)))),
        heap := (heap w)(a := (heap w a)\<lparr>opacity := ''0''\<rparr>),
        timers := (timers w)(Suc (timerCount w) \<mapsto>
          Timeout (Some a) (array_get (HERO_WORDS cfg)
            (js_rem (js_add (currentIndex w) (Finite 1))
               (Finite (int (length (HERO_WORDS cfg))))))),
        timerCount := Suc (timerCount w)\<rparr>)"
  using assms
  by (simp add: fire_def rotateNext_def updateWord_def assign_Some setTimeout_def
      set_timer_def Let_def)

lemma fire_interval_null:
  assumes "timers w h = Some (Interval None)"
  shows "fire cfg h w =
     Throw (TypeError ''Cannot set properties of null'')
       (w\<lparr>currentIndex :=
          js_rem (js_add (currentIndex w) (Finite 1))
            (Finite (int (length (HERO_WORDS cfg))))\<rparr>)"
  using assms
  by (simp add: fire_def rotateNext_def updateWord_def assign_def)

lemma fire_timeout:
  assumes "timers w h = Some (Timeout el newWord)"
  shows "currentIndex (world_of (fire cfg h w)) = currentIndex w"
    and "intervalId (world_of (fire cfg h w)) = intervalId w"
    and "timerCount (world_of (fire cfg h w)) = timerCount w"
    and "timers (world_of (fire cfg h w)) = (timers w)(h := None)"
    and "querySelector (world_of (fire cfg h w)) = querySelector w"
  using assms
  by (cases el; simp add: fire_def assign_def)+

text \<open>
  Claim C6. If the rotating-word element is absent when \<open>WordRotation.start\<close> is called,
  \<open>start\<close> returns without an exception, creates no timer (\<open>intervalId\<close>, the map of active
  timers and the handle counter stay as they were) and changes neither \<open>currentIndex\<close> nor
  any element: the module remains stopped. The only effect is the console warning of the
  lookup helper.
\<close>

theorem start_missing_element:
  assumes "querySelector w ''#rotatingWord'' = None"
  shows "WordRotation_start cfg rnd w =
           Normal (w\<lparr>console := console w @ [Warn ''Element not found: #rotatingWord'']\<rparr>)
     \<and> thrown (WordRotation_start cfg rnd w) = None
     \<and> intervalId (world_of (WordRotation_start cfg rnd w)) = intervalId w
     \<and> timers (world_of (WordRotation_start cfg rnd w)) = timers w
     \<and> timerCount (world_of (WordRotation_start cfg rnd w)) = timerCount w
     \<and> currentIndex (world_of (WordRotation_start cfg rnd w)) = currentIndex w
     \<and> heap (world_of (WordRotation_start cfg rnd w)) = heap w"
  using assms by (simp add: WordRotation_start_def dollar_absent console_warn_def)

text \<open>The theorem on the document without the element: \<open>intervalId\<close> stays \<open>null\<close>.\<close>

theorem start_missing_element_witness:
  "WordRotation_start CONFIG (1/2) empty_page =
     Normal (empty_page\<lparr>console := [Warn ''Element not found: #rotatingWord'']\<rparr>)
   \<and> intervalId (world_of (WordRotation_start CONFIG (1/2) empty_page)) = None
   \<and> timers (world_of (WordRotation_start CONFIG (1/2) empty_page)) 1 = None"
  using start_missing_element [of empty_page CONFIG "1/2"]
  by (simp add: empty_page_def page_load_def)

text \<open>
  Claim C10. \<open>WordRotation.stop\<close> never throws, and of the variables of the script it
  changes \<open>intervalId\<close> only: for every state, \<open>currentIndex\<close> and \<open>isMenuOpen\<close> are
  unchanged, and so are the document, the elements, the console, the preloaded images and
  the handle counter. In the browser's map of active timers the one handle that
  \<open>intervalId\<close> held is cancelled and every other timer stays.
\<close>

theorem stop_frame:
  "thrown (WordRotation_stop w) = None
   \<and> currentIndex (world_of (WordRotation_stop w)) = currentIndex w
   \<and> isMenuOpen (world_of (WordRotation_stop w)) = isMenuOpen w
   \<and> heap (world_of (WordRotation_stop w)) = heap w
   \<and> querySelector (world_of (WordRotation_stop w)) = querySelector w
   \<and> anchors (world_of (WordRotation_stop w)) = anchors w
   \<and> images (world_of (WordRotation_stop w)) = images w
   \<and> console (world_of (WordRotation_stop w)) = console w
   \<and> timerCount (world_of (WordRotation_stop w)) = timerCount w
   \<and> timers (world_of (WordRotation_stop w)) =
       (case intervalId w of
          None \<Rightarrow> timers w
        | Some h \<Rightarrow> if h = 0 then timers w else (timers w)(h := None))"
  by (simp add: WordRotation_stop_def clearInterval_def split: option.split)

text \<open>
  The theorem on the full document after a start with \<open>Math.random() = 1/2\<close> and one
  rotation: \<open>stop\<close> leaves the cursor at 6 and the pending fade in place.
\<close>

theorem stop_frame_witness:
  "currentIndex (run CONFIG [CallStart (1/2), Fire 1] full_page) = Finite 6
   \<and> currentIndex (world_of (WordRotation_stop (run CONFIG [CallStart (1/2), Fire 1] full_page)))
       = Finite 6
   \<and> timers (world_of (WordRotation_stop (run CONFIG [CallStart (1/2), Fire 1] full_page))) 1
       = None
   \<and> timers (world_of (WordRotation_stop (run CONFIG [CallStart (1/2), Fire 1] full_page))) 2
       = Some (Timeout (Some 2) (Some ''Database''))"
  using stop_frame [of "run CONFIG [CallStart (1/2), Fire 1] full_page"]
  by (simp add: script_defs page_defs)

section \<open>Bootstrap\<close>

lemma closeMenuOnLinkClick_no_throw: "thrown (closeMenuOnLinkClick w) = None"
  by (auto simp add: closeMenuOnLinkClick_def dollar_def dollar_dollar_a_def forEach_def
      Let_def assign_Some intro!: run_stmts_no_throw)

lemma Navigation_init_no_throw: "thrown (Navigation_init w) = None"
proof (cases "querySelector w ''#navCta''")
  case None
  then show ?thesis by (simp add: Navigation_init_def dollar_absent)
next
  case (Some n)
  have "thrown (run_stmts
      [assign (Some n) (addEventListener ''click'' ToggleMenuListener), closeMenuOnLinkClick]
      w) = None"
    by (rule run_stmts_no_throw) (auto simp add: assign_Some closeMenuOnLinkClick_no_throw)
  with Some show ?thesis by (simp add: Navigation_init_def dollar_present)
qed

lemma WordRotation_start_no_throw: "thrown (WordRotation_start cfg rnd w) = None"
proof (cases "querySelector w ''#rotatingWord''")
  case None
  then show ?thesis by (simp add: start_absent)
next
  case (Some a)
  then show ?thesis by (simp add: start_present)
qed

lemma HeroImage_init_no_throw: "thrown (HeroImage_init cfg rnd w) = None"
  by (auto simp add: HeroImage_init_def setRandomImage_def dollar_def Let_def assign_Some)

lemma preloadImages_no_throw: "thrown (preloadImages cfg w) = None"
  by (auto simp add: preloadImages_def forEach_def intro!: run_stmts_no_throw)

text \<open>
  Claim C2. \<open>initApp\<close> calls \<open>Navigation.init\<close>, \<open>WordRotation.start\<close>, \<open>HeroImage.init\<close> and
  \<open>preloadImages\<close> in that order, each on the state the one before left. Whatever the
  four callees do, no exception leaves \<open>initApp\<close>; when one of them throws, the callees
  before it have run, the ones after it are skipped, and the state is the one at the
  throw with the error logged. With the callees of the script none throws, and \<open>initApp\<close>
  is the four calls in sequence.
\<close>

theorem initApp_error_boundary:
  "thrown (initApp_of nav rot hero pre w) = None
   \<and> world_of (initApp_of nav rot hero pre w) =
      (case nav w of
         Throw e w1 \<Rightarrow> logged e w1
       | Normal w1 \<Rightarrow>
          (case rot w1 of
             Throw e w2 \<Rightarrow> logged e w2
           | Normal w2 \<Rightarrow>
              (case hero w2 of
                 Throw e w3 \<Rightarrow> logged e w3
               | Normal w3 \<Rightarrow>
                  (case pre w3 of
                     Throw e w4 \<Rightarrow> logged e w4
                   | Normal w4 \<Rightarrow> w4))))
   \<and> initApp cfg rnd1 rnd2 w =
       Normal (world_of (preloadImages cfg
         (world_of (HeroImage_init cfg rnd2
           (world_of (WordRotation_start cfg rnd1
             (world_of (Navigation_init w))))))))"
proof -
  have boundary: "thrown (initApp_of nav rot hero pre w) = None"
    by (simp add: initApp_of_def try_catch_def console_error_def split: outcome.splits)
  have order: "world_of (initApp_of nav rot hero pre w) =
      (case nav w of
         Throw e w1 \<Rightarrow> logged e w1
       | Normal w1 \<Rightarrow>
          (case rot w1 of
             Throw e w2 \<Rightarrow> logged e w2
           | Normal w2 \<Rightarrow>
              (case hero w2 of
                 Throw e w3 \<Rightarrow> logged e w3
               | Normal w3 \<Rightarrow>
                  (case pre w3 of
                     Throw e w4 \<Rightarrow> logged e w4
                   | Normal w4 \<Rightarrow> w4))))"
    by (simp add: initApp_of_def try_catch_def console_error_def logged_def
        split: outcome.splits)
  have script: "initApp cfg rnd1 rnd2 w =
       Normal (world_of (preloadImages cfg
         (world_of (HeroImage_init cfg rnd2
           (world_of (WordRotation_start cfg rnd1
             (world_of (Navigation_init w))))))))"
    using Navigation_init_no_throw [of w]
      WordRotation_start_no_throw [of cfg rnd1 "world_of (Navigation_init w)"]
      HeroImage_init_no_throw [of cfg rnd2
        "world_of (WordRotation_start cfg rnd1 (world_of (Navigation_init w)))"]
      preloadImages_no_throw [of cfg "world_of (HeroImage_init cfg rnd2
           (world_of (WordRotation_start cfg rnd1 (world_of (Navigation_init w)))))"]
    by (auto simp add: initApp_def initApp_of_def try_catch_def thrown_None_iff
        split: outcome.splits)
  from boundary order script show ?thesis by blast
qed

text \<open>The definitions a bootstrap on a given page unfolds to.\<close>

lemmas bootstrap_defs =
  initApp_def initApp_of_def try_catch_def console_error_def logged_def Navigation_init_def
  closeMenuOnLinkClick_def dollar_dollar_a_def forEach_def addEventListener_def
  preloadImages_def HeroImage_init_def setRandomImage_def getRandomItem_def set_src_def

text \<open>
  The theorem on the full document, with a hero-image step that throws: no exception
  leaves \<open>initApp\<close>, the error is logged, the click listener is bound and the rotation
  runs, and no image is preloaded. With the callees of the script all four steps run.
\<close>

theorem initApp_error_boundary_witness:
  "thrown (initApp_of Navigation_init (WordRotation_start CONFIG (1/2))
      (\<lambda>w. Throw (Thrown ''hero'') w) (preloadImages CONFIG) full_page) = None
   \<and> console (world_of (initApp_of Navigation_init (WordRotation_start CONFIG (1/2))
      (\<lambda>w. Throw (Thrown ''hero'') w) (preloadImages CONFIG) full_page))
      = [ErrorLog ''Error initializing application:'' (Thrown ''hero'')]
   \<and> listeners (heap (world_of (initApp_of Navigation_init (WordRotation_start CONFIG (1/2))
      (\<lambda>w. Throw (Thrown ''hero'') w) (preloadImages CONFIG) full_page)) 1)
      = [(''click'', ToggleMenuListener)]
   \<and> intervalId (world_of (initApp_of Navigation_init (WordRotation_start CONFIG (1/2))
      (\<lambda>w. Throw (Thrown ''hero'') w) (preloadImages CONFIG) full_page)) = Some 1
   \<and> images (world_of (initApp_of Navigation_init (WordRotation_start CONFIG (1/2))
      (\<lambda>w. Throw (Thrown ''hero'') w) (preloadImages CONFIG) full_page)) = []
   \<and> images (world_of (initApp CONFIG (1/2) (1/2) full_page)) = HERO_IMAGES CONFIG
   \<and> src (heap (world_of (initApp CONFIG (1/2) (1/2) full_page)) 3) = ''images/hero-3.png''
   \<and> console (world_of (initApp CONFIG (1/2) (1/2) full_page)) = []"
  using initApp_error_boundary [of Navigation_init "WordRotation_start CONFIG (1/2)"
      "\<lambda>w. Throw (Thrown ''hero'') w" "preloadImages CONFIG" full_page CONFIG "1/2" "1/2"]
  by (simp add: bootstrap_defs script_defs page_defs)

section \<open>Stop and the pending fade\<close>

lemma handle_ok_start:
  assumes "handle_ok w"
  shows "handle_ok (world_of (WordRotation_start cfg rnd w))"
proof (cases "querySelector w ''#rotatingWord''")
  case None
  with assms show ?thesis
    by (auto simp add: handle_ok_def start_absent split: option.splits timer.splits)
next
  case (Some a)
  with assms show ?thesis by (simp add: handle_ok_def start_present)
qed

lemma handle_ok_stop: "handle_ok w \<Longrightarrow> handle_ok (world_of (WordRotation_stop w))"
  by (auto simp add: handle_ok_def stop_cases split: option.splits)

lemma handle_ok_fire:
  assumes "handle_ok w"
  shows "handle_ok (world_of (fire cfg g w))"
proof (cases "timers w g")
  case None
  with assms show ?thesis by (simp add: fire_inactive)
next
  case (Some t)
  show ?thesis
  proof (cases t)
    case (Interval e)
    with Some assms show ?thesis
      by (cases e)
        (auto simp add: handle_ok_def fire_interval fire_interval_null split: option.splits)
  next
    case (Timeout e s)
    with Some assms show ?thesis
      by (auto simp add: handle_ok_def fire_timeout split: option.splits timer.splits)
  qed
qed

lemma handle_ok_exec: "handle_ok w \<Longrightarrow> handle_ok (world_of (exec cfg ev w))"
  by (cases ev) (simp_all add: handle_ok_start handle_ok_stop handle_ok_fire)

lemma handle_ok_run: "handle_ok w \<Longrightarrow> handle_ok (run cfg evs w)"
  by (induction evs arbitrary: w) (simp_all add: handle_ok_exec)

lemma handle_ok_page_load: "handle_ok (page_load doc links els)"
  by (simp add: handle_ok_def page_load_def)

lemma stop_keeps_timeout:
  assumes "handle_ok w" and "timers w h = Some (Timeout el s)"
  shows "timers (world_of (WordRotation_stop w)) h = Some (Timeout el s)"
  using assms by (auto simp add: handle_ok_def stop_cases split: option.splits)

text \<open>
  Claim C8. \<open>WordRotation.stop\<close> cancels the recurring timer only: in every state the page
  reaches from its load by calls of \<open>start\<close> and \<open>stop\<close> and firings of timers, every
  one-shot fade callback that is pending before \<open>stop\<close> is still pending after it. Hence
  a word swap queued before \<open>stop\<close> can write the text after \<open>stop\<close> has returned: on the
  full document, after a start with \<open>Math.random() = 1/2\<close> and one rotation, a \<open>stop\<close>
  within the fade duration clears \<open>intervalId\<close> and the interval, the fade to \<open>Database\<close>
  is still pending while the text is \<open>Cron Job\<close>, and when it fires the text becomes
  \<open>Database\<close>.
\<close>

theorem stop_keeps_pending_fade:
  "(\<forall>h el s. timers (run cfg evs (page_load doc links els)) h = Some (Timeout el s) \<longrightarrow>
       timers (world_of (WordRotation_stop (run cfg evs (page_load doc links els)))) h
         = Some (Timeout el s))
   \<and> timers (run CONFIG [CallStart (1/2), Fire 1] full_page) 2
       = Some (Timeout (Some 2) (Some ''Database''))
   \<and> intervalId (run CONFIG [CallStart (1/2), Fire 1, CallStop] full_page) = None
   \<and> timers (run CONFIG [CallStart (1/2), Fire 1, CallStop] full_page) 1 = None
   \<and> timers (run CONFIG [CallStart (1/2), Fire 1, CallStop] full_page) 2
       = Some (Timeout (Some 2) (Some ''Database''))
   \<and> textContent (heap (run CONFIG [CallStart (1/2), Fire 1, CallStop] full_page) 2)
       = ''Cron Job''
   \<and> textContent (heap (run CONFIG [CallStart (1/2), Fire 1, CallStop, Fire 2] full_page) 2)
       = ''Database''"
proof -
  have "handle_ok (run cfg evs (page_load doc links els))"
    by (rule handle_ok_run) (rule handle_ok_page_load)
  then have general: "\<forall>h el s.
      timers (run cfg evs (page_load doc links els)) h = Some (Timeout el s) \<longrightarrow>
       timers (world_of (WordRotation_stop (run cfg evs (page_load doc links els)))) h
         = Some (Timeout el s)"
    by (blast intro: stop_keeps_timeout)
  have "timers (run CONFIG [CallStart (1/2), Fire 1] full_page) 2
       = Some (Timeout (Some 2) (Some ''Database''))
   \<and> intervalId (run CONFIG [CallStart (1/2), Fire 1, CallStop] full_page) = None
   \<and> timers (run CONFIG [CallStart (1/2), Fire 1, CallStop] full_page) 1 = None
   \<and> timers (run CONFIG [CallStart (1/2), Fire 1, CallStop] full_page) 2
       = Some (Timeout (Some 2) (Some ''Database''))
   \<and> textContent (heap (run CONFIG [CallStart (1/2), Fire 1, CallStop] full_page) 2)
       = ''Cron Job''
   \<and> textContent (heap (run CONFIG [CallStart (1/2), Fire 1, CallStop, Fire 2] full_page) 2)
       = ''Database''"
    by (simp add: script_defs page_defs)
  with general show ?thesis by blast
qed

text \<open>
  The theorem on a trace that starts at index 9 (\<open>Math.random() = 15/16\<close>) and rotates
  once: the fade to the first word survives \<open>stop\<close>.
\<close>

theorem stop_keeps_pending_fade_witness:
  "timers (world_of (WordRotation_stop (run CONFIG [CallStart (15/16), Fire 1]
       (page_load full_document (\<lambda>a. []) (\<lambda>a. blank_element))))) 2
     = Some (Timeout (Some 2) (Some ''WhatsApp Bot''))"
proof -
  have product: "is_double (75/8)"
    using is_double_dyadic [of 75 3] by simp
  from stop_keeps_pending_fade [of CONFIG "[CallStart (15/16), Fire 1]" full_document
      "\<lambda>a. []" "\<lambda>a. blank_element"] product
  show ?thesis by (simp add: script_defs page_defs)
qed


section \<open>Stop, start, stop\<close>

lemma exec_querySelector: "querySelector (world_of (exec cfg ev w)) = querySelector w"
proof (cases ev)
  case (CallStart rnd)
  then show ?thesis
    by (cases "querySelector w ''#rotatingWord''") (simp_all add: start_absent start_present)
next
  case CallStop
  then show ?thesis by (simp add: stop_cases split: option.splits)
next
  case (Fire g)
  show ?thesis
  proof (cases "timers w g")
    case None
    with Fire show ?thesis by (simp add: fire_inactive)
  next
    case (Some t)
    with Fire show ?thesis
    proof (cases t)
      case (Interval e)
      with Some Fire show ?thesis
        by (cases e) (simp_all add: fire_interval fire_interval_null)
    next
      case (Timeout e s)
      with Some Fire show ?thesis by (simp add: fire_timeout)
    qed
  qed
qed

lemma run_querySelector: "querySelector (run cfg evs w) = querySelector w"
  by (induction evs arbitrary: w) (simp_all add: exec_querySelector)

text \<open>
  Every active recurring timer is the one \<open>intervalId\<close> holds: this is kept by every
  event but a \<open>start\<close> while \<open>intervalId\<close> is set.
\<close>

lemma tracked_exec:
  assumes "\<forall>h el. timers w h = Some (Interval el) \<longrightarrow> intervalId w = Some h \<and> h \<noteq> 0"
    and "is_start ev \<Longrightarrow> intervalId w = None"
  shows "\<forall>h el. timers (world_of (exec cfg ev w)) h = Some (Interval el) \<longrightarrow>
           intervalId (world_of (exec cfg ev w)) = Some h \<and> h \<noteq> 0"
proof (cases ev)
  case (CallStart rnd)
  with assms(2) have stopped: "intervalId w = None" by simp
  with assms(1) have none: "\<forall>h el. timers w h \<noteq> Some (Interval el)" by auto
  show ?thesis
  proof (cases "querySelector w ''#rotatingWord''")
    case None
    with CallStart assms(1) show ?thesis by (simp add: start_absent)
  next
    case (Some a)
    with CallStart none show ?thesis by (simp add: start_present)
  qed
next
  case CallStop
  with assms(1) show ?thesis by (auto simp add: stop_cases split: option.splits)
next
  case (Fire g)
  show ?thesis
  proof (cases "timers w g")
    case None
    with Fire assms(1) show ?thesis by (simp add: fire_inactive)
  next
    case (Some t)
    show ?thesis
    proof (cases t)
      case (Interval e)
      with Some Fire assms(1) show ?thesis
        by (cases e) (auto simp add: fire_interval fire_interval_null)
    next
      case (Timeout e s)
      with Some Fire assms(1) show ?thesis by (auto simp add: fire_timeout)
    qed
  qed
qed

lemma tracked_run:
  assumes "no_restart cfg evs w"
    and "\<forall>h el. timers w h = Some (Interval el) \<longrightarrow> intervalId w = Some h \<and> h \<noteq> 0"
  shows "\<forall>h el. timers (run cfg evs w) h = Some (Interval el) \<longrightarrow>
           intervalId (run cfg evs w) = Some h \<and> h \<noteq> 0"
  using assms
proof (induction evs arbitrary: w)
  case Nil
  then show ?case by simp
next
  case (Cons ev evs)
  have "\<forall>h el. timers (world_of (exec cfg ev w)) h = Some (Interval el) \<longrightarrow>
           intervalId (world_of (exec cfg ev w)) = Some h \<and> h \<noteq> 0"
    using Cons.prems by (intro tracked_exec) simp_all
  with Cons.IH [of "world_of (exec cfg ev w)"] Cons.prems(1) show ?case by simp
qed

lemma stop_start_stop_tracked:
  assumes "querySelector w ''#rotatingWord'' = Some a"
    and "\<forall>h el. timers w h = Some (Interval el) \<longrightarrow> intervalId w = Some h \<and> h \<noteq> 0"
  shows "intervalId (world_of (WordRotation_stop (world_of (WordRotation_start cfg rnd
            (world_of (WordRotation_stop w)))))) = None"
    and "timers (world_of (WordRotation_stop (world_of (WordRotation_start cfg rnd
            (world_of (WordRotation_stop w)))))) h \<noteq> Some (Interval el)"
proof -
  define w1 where "w1 = world_of (WordRotation_stop w)"
  have q1: "querySelector w1 ''#rotatingWord'' = Some a"
    using assms(1) by (simp add: w1_def stop_cases split: option.splits)
  have none1: "timers w1 g \<noteq> Some (Interval e)" for g e
    using assms(2) by (auto simp add: w1_def stop_cases split: option.splits)
  show "intervalId (world_of (WordRotation_stop (world_of (WordRotation_start cfg rnd
            (world_of (WordRotation_stop w)))))) = None"
    unfolding w1_def [symmetric] by (simp add: start_present [OF q1] stop_cases)
  show "timers (world_of (WordRotation_stop (world_of (WordRotation_start cfg rnd
            (world_of (WordRotation_stop w)))))) h \<noteq> Some (Interval el)"
    unfolding w1_def [symmetric] using none1 by (simp add: start_present [OF q1] stop_cases)
qed

lemma stop_idempotent:
  "WordRotation_stop (world_of (WordRotation_stop w)) = WordRotation_stop w"
  by (simp add: stop_cases split: option.splits)

text \<open>
  Claim C3, as amended. For every sequence of WordRotation operations and timer firings
  after the page load in which \<open>start\<close> is never called while \<open>intervalId\<close> holds a handle,
  executing \<open>stop\<close>, then \<open>start\<close> (with the rotating-word element present), then \<open>stop\<close>
  leaves no active recurring timer and \<open>intervalId\<close> cleared. Moreover, in every state,
  \<open>stop\<close> when already stopped is a no-op, and a second \<open>stop\<close> changes nothing.
\<close>

theorem stop_start_stop:
  assumes "doc ''#rotatingWord'' = Some a"
    and "no_restart cfg evs (page_load doc links els)"
  shows "intervalId (world_of (WordRotation_stop (world_of (WordRotation_start cfg rnd
            (world_of (WordRotation_stop (run cfg evs (page_load doc links els)))))))) = None
    \<and> (\<forall>h el. timers (world_of (WordRotation_stop (world_of (WordRotation_start cfg rnd
            (world_of (WordRotation_stop (run cfg evs (page_load doc links els)))))))) h
          \<noteq> Some (Interval el))
    \<and> (\<forall>w. intervalId w = None \<longrightarrow> WordRotation_stop w = Normal w)
    \<and> (\<forall>w. WordRotation_stop (world_of (WordRotation_stop w)) = WordRotation_stop w)"
proof -
  define w where "w = run cfg evs (page_load doc links els)"
  have q: "querySelector w ''#rotatingWord'' = Some a"
    using assms(1) by (simp add: w_def run_querySelector page_load_def)
  have "\<forall>h el. timers (page_load doc links els) h = Some (Interval el) \<longrightarrow>
      intervalId (page_load doc links els) = Some h \<and> h \<noteq> 0"
    by (simp add: page_load_def)
  with assms(2) have tr: "\<forall>h el. timers w h = Some (Interval el) \<longrightarrow>
      intervalId w = Some h \<and> h \<noteq> 0"
    unfolding w_def by (rule tracked_run)
  have noop: "\<forall>w. intervalId w = None \<longrightarrow> WordRotation_stop w = Normal w"
    by (simp add: stop_cases)
  from stop_start_stop_tracked [OF q tr] noop stop_idempotent show ?thesis
    unfolding w_def by blast
qed

text \<open>
  The theorem on a trace that starts, rotates, stops, starts again and rotates: after
  \<open>stop\<close>, \<open>start\<close>, \<open>stop\<close> the handle 5 of the last start is cancelled.
\<close>

theorem stop_start_stop_witness:
  "no_restart CONFIG [CallStart (1/2), Fire 1, CallStop, CallStart (1/8), Fire 3] 
      (page_load full_document (\<lambda>a. []) (\<lambda>a. blank_element))
   \<and> intervalId (run CONFIG [CallStart (1/2), Fire 1, CallStop, CallStart (1/8), Fire 3] 
      (page_load full_document (\<lambda>a. []) (\<lambda>a. blank_element))) = Some 3
   \<and> intervalId (world_of (WordRotation_stop (world_of (WordRotation_start CONFIG (3/8)
        (world_of (WordRotation_stop
          (run CONFIG [CallStart (1/2), Fire 1, CallStop, CallStart (1/8), Fire 3]
            (page_load full_document (\<lambda>a. []) (\<lambda>a. blank_element)))))))))
       = None
   \<and> timers (world_of (WordRotation_stop (world_of (WordRotation_start CONFIG (3/8)
        (world_of (WordRotation_stop
          (run CONFIG [CallStart (1/2), Fire 1, CallStop, CallStart (1/8), Fire 3]
            (page_load full_document (\<lambda>a. []) (\<lambda>a. blank_element))))))))) 5
       = None
   \<and> WordRotation_stop empty_page = Normal empty_page"
proof -
  have el: "full_document ''#rotatingWord'' = Some 2"
    by (simp add: page_defs)
  have seq: "no_restart CONFIG [CallStart (1/2), Fire 1, CallStop, CallStart (1/8), Fire 3] 
      (page_load full_document (\<lambda>a. []) (\<lambda>a. blank_element))"
    by (simp add: script_defs page_defs)
  from stop_start_stop [OF el seq, of "3/8"] seq show ?thesis
    by (simp add: script_defs page_defs)
qed

text \<open>
  Claim C3 as it is stated fails after the sequence \<open>start\<close>, \<open>start\<close>: the interval of
  the first call (handle 1) is still active after \<open>stop\<close>, \<open>start\<close>, \<open>stop\<close>.
\<close>

theorem stop_start_stop_counterexample:
  "timers (world_of (WordRotation_stop (world_of (WordRotation_start CONFIG (1/2)
        (world_of (WordRotation_stop
          (run CONFIG [CallStart (1/2), CallStart (1/2)] full_page))))))) 1
     = Some (Interval (Some 2))"
  by (simp add: script_defs page_defs)


section \<open>A second start\<close>

lemma leaked_start:
  assumes "leaked h el w"
  shows "leaked h el (world_of (WordRotation_start cfg rnd w))"
proof (cases "querySelector w ''#rotatingWord''")
  case None
  with assms show ?thesis by (simp add: leaked_def start_absent)
next
  case (Some a)
  with assms show ?thesis by (auto simp add: leaked_def start_present)
qed

lemma leaked_stop: "leaked h el w \<Longrightarrow> leaked h el (world_of (WordRotation_stop w))"
  by (auto simp add: leaked_def stop_cases split: option.splits)

lemma leaked_fire:
  assumes "leaked h el w"
  shows "leaked h el (world_of (fire cfg g w))"
proof (cases "timers w g")
  case None
  with assms show ?thesis by (simp add: fire_inactive)
next
  case (Some t)
  show ?thesis
  proof (cases t)
    case (Interval e)
    with Some assms show ?thesis
      by (cases e) (auto simp add: leaked_def fire_interval fire_interval_null)
  next
    case (Timeout e s)
    with Some assms show ?thesis
      by (auto simp add: leaked_def fire_timeout)
  qed
qed

lemma leaked_exec: "leaked h el w \<Longrightarrow> leaked h el (world_of (exec cfg ev w))"
  by (cases ev) (simp_all add: leaked_start leaked_stop leaked_fire)

lemma leaked_run: "leaked h el w \<Longrightarrow> leaked h el (run cfg evs w)"
  by (induction evs arbitrary: w) (simp_all add: leaked_exec)

text \<open>
  An active recurring timer stays active through every event but a \<open>stop\<close>, and firings
  leave \<open>intervalId\<close> alone.
\<close>

lemma active_exec:
  assumes "timers w h = Some (Interval el)" and "h \<le> timerCount w" and "ev \<noteq> CallStop"
  shows "timers (world_of (exec cfg ev w)) h = Some (Interval el)
    \<and> h \<le> timerCount (world_of (exec cfg ev w))"
proof (cases ev)
  case (CallStart rnd)
  show ?thesis
  proof (cases "querySelector w ''#rotatingWord''")
    case None
    with CallStart assms show ?thesis by (simp add: start_absent)
  next
    case (Some a)
    with CallStart assms show ?thesis by (auto simp add: start_present)
  qed
next
  case CallStop
  with assms(3) show ?thesis by simp
next
  case (Fire g)
  show ?thesis
  proof (cases "timers w g")
    case None
    with Fire assms show ?thesis by (simp add: fire_inactive)
  next
    case (Some t)
    show ?thesis
    proof (cases t)
      case (Interval e)
      with Some Fire assms show ?thesis
        by (cases e) (auto simp add: fire_interval fire_interval_null)
    next
      case (Timeout e s)
      with Some Fire assms show ?thesis by (auto simp add: fire_timeout)
    qed
  qed
qed

lemma active_run:
  assumes "timers w h = Some (Interval el)" and "h \<le> timerCount w"
    and "CallStop \<notin> set evs"
  shows "timers (run cfg evs w) h = Some (Interval el) \<and> h \<le> timerCount (run cfg evs w)"
  using assms
proof (induction evs arbitrary: w)
  case Nil
  then show ?case by simp
next
  case (Cons ev evs)
  from Cons.prems have "ev \<noteq> CallStop" and "CallStop \<notin> set evs" by auto
  with active_exec [OF Cons.prems(1,2), of ev cfg] Cons.IH [of "world_of (exec cfg ev w)"]
  show ?case by simp
qed

lemma firing_keeps_intervalId:
  assumes "\<forall>ev \<in> set evs. \<exists>g. ev = Fire g"
  shows "intervalId (run cfg evs w) = intervalId w"
  using assms
proof (induction evs arbitrary: w)
  case Nil
  then show ?case by simp
next
  case (Cons ev evs)
  then obtain g where ev: "ev = Fire g" by auto
  have "intervalId (world_of (fire cfg g w)) = intervalId w"
  proof (cases "timers w g")
    case None
    then show ?thesis by (simp add: fire_inactive)
  next
    case (Some t)
    show ?thesis
    proof (cases t)
      case (Interval e)
      with Some show ?thesis
        by (cases e) (simp_all add: fire_interval fire_interval_null)
    next
      case (Timeout e s)
      with Some show ?thesis by (simp add: fire_timeout)
    qed
  qed
  with Cons ev show ?case by simp
qed

text \<open>
  Claim C9. When \<open>WordRotation.start\<close> is called a second time with no \<open>stop\<close> in between
  (any number of timers may fire between the two calls), the rotating-word element
  present both times, the second call overwrites \<open>intervalId\<close>, which still held the
  handle of the first call, with a new handle and does not cancel the interval of the
  first call: that recurring timer is still active, and it stays active and out of
  \<open>intervalId\<close> whatever happens afterwards, in particular after any number of later calls
  of \<open>stop\<close> (and of \<open>start\<close>, and any firing of timers).
\<close>

theorem double_start_leaks:
  assumes "querySelector w ''#rotatingWord'' = Some a"
    and "\<forall>ev \<in> set between. \<exists>g. ev = Fire g"
  shows "let h1 = Suc (timerCount w);
             w1 = world_of (WordRotation_start cfg rnd1 w);
             wm = run cfg between w1;
             h2 = Suc (timerCount wm);
             w2 = world_of (WordRotation_start cfg rnd2 wm)
         in intervalId w1 = Some h1 \<and> timers w1 h1 = Some (Interval (Some a))
          \<and> intervalId wm = Some h1 \<and> timers wm h1 = Some (Interval (Some a))
          \<and> h1 < h2 \<and> intervalId w2 = Some h2
          \<and> timers w2 h2 = Some (Interval (Some a))
          \<and> timers w2 h1 = Some (Interval (Some a))
          \<and> (\<forall>evs. timers (run cfg evs w2) h1 = Some (Interval (Some a))
                   \<and> intervalId (run cfg evs w2) \<noteq> Some h1)"
proof -
  define h1 where "h1 = Suc (timerCount w)"
  define w1 where "w1 = world_of (WordRotation_start cfg rnd1 w)"
  define wm where "wm = run cfg between w1"
  define h2 where "h2 = Suc (timerCount wm)"
  define w2 where "w2 = world_of (WordRotation_start cfg rnd2 wm)"
  have id1: "intervalId w1 = Some h1" and t1: "timers w1 h1 = Some (Interval (Some a))"
    and c1: "h1 \<le> timerCount w1"
    using assms(1) by (simp_all add: w1_def h1_def start_present)
  have no_stop: "CallStop \<notin> set between" using assms(2) by auto
  from active_run [OF t1 c1 no_stop, of cfg]
  have tm: "timers wm h1 = Some (Interval (Some a))" and cm: "h1 \<le> timerCount wm"
    by (simp_all add: wm_def)
  have idm: "intervalId wm = Some h1"
    using firing_keeps_intervalId [OF assms(2), of cfg w1] id1 by (simp add: wm_def)
  have qm: "querySelector wm ''#rotatingWord'' = Some a"
    using assms(1) by (simp add: wm_def w1_def run_querySelector start_present)
  have lt: "h1 < h2" using cm by (simp add: h2_def)
  have id2: "intervalId w2 = Some h2" and t2: "timers w2 h2 = Some (Interval (Some a))"
    by (simp_all add: w2_def h2_def start_present [OF qm])
  have t21: "timers w2 h1 = Some (Interval (Some a))"
    using tm lt by (simp add: w2_def h2_def start_present [OF qm])
  have "leaked h1 (Some a) w2"
    using tm cm lt by (simp add: leaked_def w2_def h2_def start_present [OF qm])
  then have later: "\<forall>evs. timers (run cfg evs w2) h1 = Some (Interval (Some a))
      \<and> intervalId (run cfg evs w2) \<noteq> Some h1"
    using leaked_run [of h1 "Some a" w2 cfg] by (simp add: leaked_def)
  from id1 t1 idm tm lt id2 t2 t21 later show ?thesis
    unfolding Let_def h1_def [symmetric] w1_def [symmetric] wm_def [symmetric]
      h2_def [symmetric] w2_def [symmetric]
    by blast
qed

text \<open>
  The theorem on the full document, with one rotation between the two starts: the
  handles of the two intervals are 1 and 3; a stop, two firings and another stop later,
  timer 3 is cancelled, \<open>intervalId\<close> is clear and timer 1 still runs.
\<close>

theorem double_start_leaks_witness:
  "intervalId (run CONFIG [CallStart (1/2), Fire 1] full_page) = Some 1
   \<and> timerCount (run CONFIG [CallStart (1/2), Fire 1] full_page) = 2
   \<and> intervalId (run CONFIG [CallStart (1/2), Fire 1, CallStart (1/8)] full_page) = Some 3
   \<and> timers (run CONFIG [CallStart (1/2), Fire 1, CallStart (1/8)] full_page) 1
       = Some (Interval (Some 2))
   \<and> timers (run CONFIG [CallStop, Fire 1, Fire 3, CallStop]
        (run CONFIG [CallStart (1/2), Fire 1, CallStart (1/8)] full_page)) 1
       = Some (Interval (Some 2))
   \<and> timers (run CONFIG [CallStop, Fire 1, Fire 3, CallStop]
        (run CONFIG [CallStart (1/2), Fire 1, CallStart (1/8)] full_page)) 3 = None
   \<and> intervalId (run CONFIG [CallStop, Fire 1, Fire 3, CallStop]
        (run CONFIG [CallStart (1/2), Fire 1, CallStart (1/8)] full_page)) = None"
proof -
  have el: "querySelector full_page ''#rotatingWord'' = Some 2"
    by (simp add: page_defs)
  have between: "\<forall>ev \<in> set [Fire 1]. \<exists>g. ev = Fire g"
    by simp
  from double_start_leaks [OF el between, of CONFIG "1/2" "1/8"] show ?thesis
    by (simp add: script_defs page_defs)
qed

section \<open>The rotation cursor\<close>

lemma js_rem_nonneg:
  "0 \<le> a \<Longrightarrow> 0 < b \<Longrightarrow> js_rem (Finite a) (Finite b) = Finite (a mod b)"
  by (cases "a = 0") simp_all

lemma next_index:
  assumes "0 \<le> j" and "0 < n"
  shows "js_rem (js_add (Finite j) (Finite 1)) (Finite n) = Finite ((j + 1) mod n)"
  using assms by (simp add: js_rem_nonneg del: js_rem.simps)

lemma exec_index:
  assumes "HERO_WORDS cfg \<noteq> []" and "currentIndex w = Finite j" and "0 \<le> j"
    and "\<not> is_start ev"
  shows "currentIndex (world_of (exec cfg ev w)) =
     (if is_rotation ev w then Finite ((j + 1) mod int (length (HERO_WORDS cfg))) else Finite j)"
proof (cases ev)
  case (CallStart rnd)
  with assms(4) show ?thesis by simp
next
  case CallStop
  with assms(2) show ?thesis by (simp add: stop_cases split: option.splits)
next
  case (Fire g)
  have n: "0 < int (length (HERO_WORDS cfg))" using assms(1) by simp
  show ?thesis
  proof (cases "timers w g")
    case None
    with Fire assms(2) show ?thesis by (simp add: fire_inactive)
  next
    case (Some t)
    show ?thesis
    proof (cases t)
      case (Interval e)
      with Some Fire assms(2) next_index [OF assms(3) n] show ?thesis
        by (cases e) (simp_all add: fire_interval fire_interval_null)
    next
      case (Timeout e s)
      with Some Fire assms(2) show ?thesis by (simp add: fire_timeout)
    qed
  qed
qed

lemma run_index:
  assumes "HERO_WORDS cfg \<noteq> []" and "currentIndex w = Finite j" and "0 \<le> j"
    and "j < int (length (HERO_WORDS cfg))" and "\<forall>ev \<in> set evs. \<not> is_start ev"
  shows "currentIndex (run cfg evs w) =
     Finite ((j + int (rotations cfg evs w)) mod int (length (HERO_WORDS cfg)))"
  using assms(2-)
proof (induction evs arbitrary: w j)
  case Nil
  then show ?case by simp
next
  case (Cons ev evs)
  let ?n = "int (length (HERO_WORDS cfg))"
  let ?w = "world_of (exec cfg ev w)"
  from Cons.prems have ev: "\<not> is_start ev" and evs: "\<forall>ev \<in> set evs. \<not> is_start ev"
    by simp_all
  have n: "0 < ?n" using assms(1) by simp
  show ?case
  proof (cases "is_rotation ev w")
    case True
    with exec_index [OF assms(1) Cons.prems(1,2) ev]
    have "currentIndex ?w = Finite ((j + 1) mod ?n)" by simp
    moreover have "0 \<le> (j + 1) mod ?n" and "(j + 1) mod ?n < ?n" using n by simp_all
    ultimately have "currentIndex (run cfg evs ?w) =
        Finite (((j + 1) mod ?n + int (rotations cfg evs ?w)) mod ?n)"
      using evs by (intro Cons.IH)
    with True show ?thesis by (simp add: mod_add_left_eq add.assoc)
  next
    case False
    with exec_index [OF assms(1) Cons.prems(1,2) ev]
    have "currentIndex ?w = Finite j" by simp
    then have "currentIndex (run cfg evs ?w) = Finite ((j + int (rotations cfg evs ?w)) mod ?n)"
      using Cons.prems(2,3) evs by (intro Cons.IH)
    with False show ?thesis by simp
  qed
qed

text \<open>
  Claim C1. For every configured word list of length \<open>n \<ge> 1\<close> (a JavaScript array: fewer
  than \<open>2\<^sup>3\<^sup>2\<close> words) and every value of the random source (a double with
  \<open>0 \<le> rnd < 1\<close>), the start picks an index \<open>initial\<close> with \<open>0 \<le> initial < n\<close>; after any
  events without a further start, \<open>k\<close> of which fire the recurring rotation callback,
  \<open>currentIndex\<close> is \<open>(initial + k) mod n\<close>; and the next firing of a rotation callback moves
  it to \<open>(initial + k + 1) mod n\<close> and passes the word at that index to the fade-update
  routine, which queues it for the element.
\<close>

theorem rotation_cursor:
  assumes "HERO_WORDS cfg \<noteq> []" and "length (HERO_WORDS cfg) < 2 ^ 32"
    and "is_double rnd" and "0 \<le> rnd" and "rnd < 1"
    and "querySelector w ''#rotatingWord'' = Some a"
    and "\<forall>ev \<in> set evs. \<not> is_start ev"
  shows "\<exists>initial. getRandomInt rnd (Num (real (length (HERO_WORDS cfg)))) = Finite initial \<and>
        (let n = int (length (HERO_WORDS cfg));
             w0 = world_of (WordRotation_start cfg rnd w);
             k = int (rotations cfg evs w0);
             wk = run cfg evs w0
         in currentIndex w0 = Finite initial \<and> 0 \<le> initial \<and> initial < n
          \<and> timers w0 (Suc (timerCount w)) = Some (Interval (Some a))
          \<and> currentIndex wk = Finite ((initial + k) mod n)
          \<and> (\<forall>h el. timers wk h = Some (Interval (Some el)) \<longrightarrow>
                currentIndex (world_of (fire cfg h wk)) = Finite ((initial + k + 1) mod n)
                \<and> timers (world_of (fire cfg h wk)) (timerCount (world_of (fire cfg h wk)))
                    = Some (Timeout (Some el)
                        (Some (HERO_WORDS cfg ! nat ((initial + k + 1) mod n))))))"
proof -
  define n where "n = int (length (HERO_WORDS cfg))"
  define w0 where "w0 = world_of (WordRotation_start cfg rnd w)"
  define k where "k = int (rotations cfg evs w0)"
  define wk where "wk = run cfg evs w0"
  have n: "0 < n" using assms(1) by (simp add: n_def)
  have pos: "0 < real (length (HERO_WORDS cfg))" using assms(1) by simp
  have "length (HERO_WORDS cfg) < 2 ^ 53" using assms(2) by simp
  then have len: "is_double (real (length (HERO_WORDS cfg)))" by (rule is_double_nat)
  from assms(3-5) len pos obtain initial
    where pick: "getRandomInt rnd (Num (real (length (HERO_WORDS cfg)))) = Finite initial"
    and lo: "0 \<le> initial" and "real_of_int initial < real (length (HERO_WORDS cfg))"
    by (rule getRandomInt_in_range)
  then have hi: "initial < n" by (simp add: n_def)
  have c0: "currentIndex w0 = Finite initial"
    and t0: "timers w0 (Suc (timerCount w)) = Some (Interval (Some a))"
    by (simp_all add: w0_def pick start_present [OF assms(6)])
  have ck: "currentIndex wk = Finite ((initial + k) mod n)"
    unfolding wk_def k_def n_def
    using assms(1) c0 lo hi [unfolded n_def] assms(7) by (rule run_index)
  have firing: "currentIndex (world_of (fire cfg h wk)) = Finite ((initial + k + 1) mod n)
      \<and> timers (world_of (fire cfg h wk)) (timerCount (world_of (fire cfg h wk)))
          = Some (Timeout (Some el) (Some (HERO_WORDS cfg ! nat ((initial + k + 1) mod n))))"
    if active: "timers wk h = Some (Interval (Some el))" for h el
  proof -
    have "0 \<le> (initial + k) mod n" using n by simp
    then have step: "js_rem (js_add (currentIndex wk) (Finite 1)) (Finite n)
        = Finite ((initial + k + 1) mod n)"
      using n by (simp add: ck next_index mod_add_left_eq)
    have "0 \<le> (initial + k + 1) mod n" and "(initial + k + 1) mod n < n"
      using n by simp_all
    then have "array_get (HERO_WORDS cfg) (Finite ((initial + k + 1) mod n))
        = Some (HERO_WORDS cfg ! nat ((initial + k + 1) mod n))"
      by (simp add: n_def)
    with step show ?thesis
      by (simp add: fire_interval [OF active] n_def [symmetric])
  qed
  from c0 lo hi t0 ck firing
  have "let n = int (length (HERO_WORDS cfg));
             w0 = world_of (WordRotation_start cfg rnd w);
             k = int (rotations cfg evs w0);
             wk = run cfg evs w0
         in currentIndex w0 = Finite initial \<and> 0 \<le> initial \<and> initial < n
          \<and> timers w0 (Suc (timerCount w)) = Some (Interval (Some a))
          \<and> currentIndex wk = Finite ((initial + k) mod n)
          \<and> (\<forall>h el. timers wk h = Some (Interval (Some el)) \<longrightarrow>
                currentIndex (world_of (fire cfg h wk)) = Finite ((initial + k + 1) mod n)
                \<and> timers (world_of (fire cfg h wk)) (timerCount (world_of (fire cfg h wk)))
                    = Some (Timeout (Some el)
                        (Some (HERO_WORDS cfg ! nat ((initial + k + 1) mod n)))))"
    unfolding Let_def n_def [symmetric] w0_def [symmetric]
      k_def [symmetric] wk_def [symmetric]
    by blast
  with pick show ?thesis by blast
qed

text \<open>
  The theorem on the full document with the ten configured words and
  \<open>Math.random() = 15/16\<close>: the start picks index 9, one rotation wraps to 0, and the
  next one passes the word at index 1.
\<close>

theorem rotation_cursor_witness:
  "currentIndex (world_of (WordRotation_start CONFIG (15/16) full_page)) = Finite 9
   \<and> rotations CONFIG [Fire 1, Fire 2]
       (world_of (WordRotation_start CONFIG (15/16) full_page)) = 1
   \<and> currentIndex (run CONFIG [Fire 1, Fire 2]
       (world_of (WordRotation_start CONFIG (15/16) full_page))) = Finite 0
   \<and> currentIndex (world_of (fire CONFIG 1 (run CONFIG [Fire 1, Fire 2]
       (world_of (WordRotation_start CONFIG (15/16) full_page))))) = Finite 1
   \<and> timers (world_of (fire CONFIG 1 (run CONFIG [Fire 1, Fire 2]
       (world_of (WordRotation_start CONFIG (15/16) full_page))))) 3
      = Some (Timeout (Some 2) (Some ''Telegram Bot''))"
proof -
  have el: "querySelector full_page ''#rotatingWord'' = Some 2"
    by (simp add: page_defs)
  have words: "HERO_WORDS CONFIG \<noteq> []" and len: "length (HERO_WORDS CONFIG) < 2 ^ 32"
    by (simp_all add: CONFIG_def)
  have rnd: "is_double (15/16)"
    using is_double_dyadic [of 15 4] by simp
  have product: "is_double (75/8)"
    using is_double_dyadic [of 75 3] by simp
  have evs: "\<forall>ev \<in> set [Fire 1, Fire 2]. \<not> is_start ev"
    by simp
  from rotation_cursor [OF words len rnd _ _ el evs] product show ?thesis
    by (simp add: script_defs page_defs)
qed

end
